theory Spec2Isabelle
  imports Complex_Main "HOL-Library.Word"
begin

section \<open>Data model\<close>

text \<open>
  The storage types of a column. The row-binding code names \<open>ST_VOID\<close>, the binning
  code names \<open>SType::INT32\<close> and \<open>SType::FLOAT64\<close>; the other members are the ones
  the system overview lists.
\<close>

datatype SType = ST_VOID | ST_BOOL | ST_INT32 | ST_INT64 | ST_FLOAT32 | ST_FLOAT64 | ST_STRING

text \<open>
  A column as \<open>datatable_rbind.cc\<close> sees it: a storage type and its rows, where
  \<open>None\<close> is the NA element. Columns are values: a structural operation puts a new
  column into a slot of a table and never changes a column that another table holds.
\<close>

record 'v column =
  stype :: SType
  rows :: "'v option list"

text \<open>
  A table: the \<open>int64_t\<close> fields \<open>nrows\<close> and \<open>ncols\<close>, the optional table-level row
  index, and the array \<open>columns\<close> of column pointers, where \<open>None\<close> is the null
  pointer.
\<close>

record ('v, 'r) datatable =
  nrows :: int
  ncols :: int
  rowindex :: "'r option"
  columns :: "'v column option list"

text \<open>
  Tables are reached through pointers, and the receiver may occur among the sources, so
  the operation runs on a store from addresses to tables.
\<close>

type_synonym addr = nat
type_synonym ('v, 'r) heap = "addr \<Rightarrow> ('v, 'r) datatable option"

text \<open>The result of building something that may be a null pointer.\<close>

datatype 'a attempt = Undef | Failed | Built 'a

text \<open>
  How a call of \<open>DataTable::rbind\<close> ends: with behaviour the language leaves undefined
  (a null or out-of-range read, a signed overflow), with the failed assertion, by
  \<open>return NULL\<close> or by \<open>return this\<close>; the last two carry the store they leave.
\<close>

datatype 'h outcome = Undefined_behaviour | Assert_abort | Returned_NULL 'h | Returned_this 'h

section \<open>Row binding\<close>

definition int64_ok :: "int \<Rightarrow> bool" where
  "int64_ok x \<longleftrightarrow> - (2 ^ 63) \<le> x \<and> x < 2 ^ 63"

text \<open>The conversion \<open>(size_t) n\<close> of a 64-bit signed value.\<close>

definition size_t_of :: "int \<Rightarrow> nat" where
  "size_t_of n = nat (n mod 2 ^ 64)"

text \<open>\<open>new Column(st, n)\<close>: a column of \<open>n\<close> rows; for \<open>ST_VOID\<close> every row is NA.\<close>

definition new_Column :: "SType \<Rightarrow> nat \<Rightarrow> 'v column" where
  "new_Column st n = \<lparr>stype = st, rows = replicate n None\<rparr>"

text \<open>\<open>t->columns[k]\<close>; a read outside the array or of a null slot gives \<open>None\<close>.\<close>

definition get_col :: "('v, 'r) datatable \<Rightarrow> int \<Rightarrow> 'v column option" where
  "get_col t k = (if 0 \<le> k \<and> nat k < length (columns t) then columns t ! nat k else None)"

text \<open>
  Modelled from the spec: \<open>Column::rbind\<close>, which is not in the sources. The result
  holds the receiver's rows and then the rows of every block, in order; its storage
  type is the highest promotion rank among the inputs that are not void. Which inputs
  cannot be fused is implementation-defined, so the test is the parameter \<open>fusable\<close>.
\<close>

fun stype_rank :: "SType \<Rightarrow> nat" where
  "stype_rank ST_VOID = 0"
| "stype_rank ST_BOOL = 1"
| "stype_rank ST_INT32 = 2"
| "stype_rank ST_INT64 = 3"
| "stype_rank ST_FLOAT32 = 4"
| "stype_rank ST_FLOAT64 = 5"
| "stype_rank ST_STRING = 6"

definition promote :: "SType \<Rightarrow> SType \<Rightarrow> SType" where
  "promote a b = (if stype_rank a < stype_rank b then b else a)"

definition Column_rbind ::
  "(SType list \<Rightarrow> bool) \<Rightarrow> 'v column \<Rightarrow> 'v column list \<Rightarrow> 'v column option" where
  "Column_rbind fusable col0 cols0 =
     (if fusable (map stype (col0 # cols0))
      then Some \<lparr>stype = foldl promote (stype col0) (map stype cols0),
                 rows = rows col0 @ concat (map rows cols0)\<rparr>
      else None)"

text \<open>
  Modelled from the spec: \<open>DataTable::reify\<close>, which is not in the sources. Every
  column is replaced by its extraction through the table-level row index, the row index
  is cleared, and \<open>nrows\<close> stays. \<open>Column::extract\<close> is not in the sources either; it
  is the parameter \<open>extract\<close>, which may give a null pointer.
\<close>

definition reify ::
  "('r \<Rightarrow> 'v column \<Rightarrow> 'v column option) \<Rightarrow> ('v, 'r) datatable \<Rightarrow> ('v, 'r) datatable" where
  "reify extract t =
     (case rowindex t of
        None \<Rightarrow> t
      | Some ri \<Rightarrow>
          t\<lparr>columns := map (\<lambda>c. case c of None \<Rightarrow> None | Some col \<Rightarrow> extract ri col) (columns t),
            rowindex := None\<rparr>)"

text \<open>
  \<open>dtrealloc(columns, Column*, n)\<close>: the array resized to \<open>n\<close> slots, the common prefix
  kept. The macro is not in the sources; a failed allocation is not modelled, and a
  fresh slot reads as null.
\<close>

definition dtrealloc :: "'a option list \<Rightarrow> nat \<Rightarrow> 'a option list" where
  "dtrealloc xs n = take n xs @ replicate (n - length xs) None"

text \<open>Lines 32 to 36: the array grown to \<open>ncols__ + 1\<close> slots, the new ones set to null.\<close>

definition grow_columns :: "'a option list \<Rightarrow> int \<Rightarrow> int \<Rightarrow> 'a option list" where
  "grow_columns xs nc nc' =
     (fold (\<lambda>i ys. ys[i := None]) [nat nc ..< nat nc'] (dtrealloc xs (nat (nc' + 1))))
       [nat nc' := None]"

text \<open>
  Lines 38 to 41: the row counts of the sources added to \<open>acc\<close>. \<open>None\<close> stands for a
  null source pointer or a sum that leaves the 64-bit range.
\<close>

fun sum_nrows :: "('v, 'r) heap \<Rightarrow> int \<Rightarrow> addr list \<Rightarrow> int option" where
  "sum_nrows h acc [] = Some acc"
| "sum_nrows h acc (p # ps) =
     (case h p of
        None \<Rightarrow> None
      | Some d \<Rightarrow> if int64_ok (acc + nrows d) then sum_nrows h (acc + nrows d) ps else None)"

text \<open>Lines 53 to 59: what source table \<open>p\<close> contributes for the mapping entry \<open>c\<close>.\<close>

definition make_contrib ::
  "('r \<Rightarrow> 'v column \<Rightarrow> 'v column option) \<Rightarrow> ('v, 'r) heap \<Rightarrow> addr \<Rightarrow> int \<Rightarrow> 'v column attempt" where
  "make_contrib extract h p c =
     (case h p of
        None \<Rightarrow> Undef
      | Some d \<Rightarrow>
          if c < 0 then Built (new_Column ST_VOID (size_t_of (nrows d)))
          else (case rowindex d of
                  Some ri \<Rightarrow>
                    (case get_col d c of
                       None \<Rightarrow> Undef
                     | Some col \<Rightarrow> (case extract ri col of None \<Rightarrow> Failed | Some x \<Rightarrow> Built x))
                | None \<Rightarrow>
                    (case get_col d c of None \<Rightarrow> Undef | Some col \<Rightarrow> Built col)))"

text \<open>
  Lines 52 to 61: the inner loop over the sources, from index \<open>j\<close> on; it stops at the
  first null contribution.
\<close>

fun fill_cols0 ::
  "('r \<Rightarrow> 'v column \<Rightarrow> 'v column option) \<Rightarrow> ('v, 'r) heap \<Rightarrow> (nat \<Rightarrow> int) \<Rightarrow> nat \<Rightarrow> addr list
     \<Rightarrow> 'v column list attempt" where
  "fill_cols0 extract h row j [] = Built []"
| "fill_cols0 extract h row j (p # ps) =
     (case make_contrib extract h p (row j) of
        Undef \<Rightarrow> Undef
      | Failed \<Rightarrow> Failed
      | Built c \<Rightarrow>
          (case fill_cols0 extract h row (Suc j) ps of
             Undef \<Rightarrow> Undef
           | Failed \<Rightarrow> Failed
           | Built cs \<Rightarrow> Built (c # cs)))"

text \<open>
  Lines 47 to 65: the loop over the result columns, from index \<open>i\<close> on. \<open>crbind\<close> is
  \<open>Column::rbind\<close>, \<open>cols i j\<close> is \<open>cols[i][j]\<close>.
\<close>

function rbind_loop ::
  "('v column \<Rightarrow> 'v column list \<Rightarrow> 'v column option) \<Rightarrow> ('r \<Rightarrow> 'v column \<Rightarrow> 'v column option)
     \<Rightarrow> addr \<Rightarrow> addr list \<Rightarrow> (nat \<Rightarrow> nat \<Rightarrow> int) \<Rightarrow> int \<Rightarrow> int \<Rightarrow> ('v, 'r) heap
     \<Rightarrow> ('v, 'r) heap outcome" where
  "rbind_loop crbind extract this dts cols n i h =
     (if i < n then
        (case h this of
           None \<Rightarrow> Undefined_behaviour
         | Some t \<Rightarrow>
             (let col0 = (if i < ncols t then get_col t i
                          else Some (new_Column ST_VOID (size_t_of (nrows t))))
              in case fill_cols0 extract h (cols (nat i)) 0 dts of
                   Undef \<Rightarrow> Undefined_behaviour
                 | Failed \<Rightarrow> Returned_NULL h
                 | Built cols0 \<Rightarrow>
                     (case col0 of
                        None \<Rightarrow> Undefined_behaviour
                      | Some c0 \<Rightarrow>
                          (case crbind c0 cols0 of
                             None \<Rightarrow> Returned_NULL h
                           | Some ret \<Rightarrow>
                               rbind_loop crbind extract this dts cols n (i + 1)
                                 (h(this \<mapsto> t\<lparr>columns := (columns t)[nat i := Some ret]\<rparr>))))))
      else Returned_this h)"
  by pat_completeness auto
termination
  by (relation "measure (\<lambda>(crbind, extract, this, dts, cols, n, i, h). nat (n - i))") auto

declare rbind_loop.simps [simp del]

text \<open>
  The body of the loop fails at column \<open>i\<close>: a contribution is null, or the
  contributions are built and their fusion with the base column fails.
\<close>

definition step_fails ::
  "('v column \<Rightarrow> 'v column list \<Rightarrow> 'v column option) \<Rightarrow> ('r \<Rightarrow> 'v column \<Rightarrow> 'v column option)
     \<Rightarrow> addr \<Rightarrow> addr list \<Rightarrow> (nat \<Rightarrow> nat \<Rightarrow> int) \<Rightarrow> int \<Rightarrow> ('v, 'r) heap \<Rightarrow> bool" where
  "step_fails crbind extract this dts cols i h =
     (case h this of
        None \<Rightarrow> False
      | Some t \<Rightarrow>
          (case fill_cols0 extract h (cols (nat i)) 0 dts of
             Undef \<Rightarrow> False
           | Failed \<Rightarrow> True
           | Built cols0 \<Rightarrow>
               (case (if i < ncols t then get_col t i
                      else Some (new_Column ST_VOID (size_t_of (nrows t)))) of
                  None \<Rightarrow> False
                | Some c0 \<Rightarrow> crbind c0 cols0 = None)))"

text \<open>Lines 30 to 36: the receiver reified and its column array grown.\<close>

definition prepare_receiver ::
  "('r \<Rightarrow> 'v column \<Rightarrow> 'v column option) \<Rightarrow> ('v, 'r) datatable \<Rightarrow> int \<Rightarrow> ('v, 'r) datatable" where
  "prepare_receiver extract t ncols_new =
     (let t1 = reify extract t
      in t1\<lparr>columns := grow_columns (columns t1) (ncols t1) ncols_new\<rparr>)"

text \<open>
  \<open>DataTable::rbind\<close> on the table at address \<open>this\<close>, with the sources at the
  addresses \<open>dts\<close> (so \<open>ndts\<close> is \<open>length dts\<close>); \<open>ncols_new\<close> is the argument
  \<open>ncols__\<close>. A negative \<open>ncols\<close> makes line 34 or line 36 write before the array.
  The scratch array \<open>cols0\<close> and the columns built before a failure are not freed by
  the code; memory that is only leaked is not part of the store.
\<close>

definition DataTable_rbind ::
  "('v column \<Rightarrow> 'v column list \<Rightarrow> 'v column option) \<Rightarrow> ('r \<Rightarrow> 'v column \<Rightarrow> 'v column option)
     \<Rightarrow> ('v, 'r) heap \<Rightarrow> addr \<Rightarrow> addr list \<Rightarrow> (nat \<Rightarrow> nat \<Rightarrow> int) \<Rightarrow> int
     \<Rightarrow> ('v, 'r) heap outcome" where
  "DataTable_rbind crbind extract h this dts cols ncols_new =
     (case h this of
        None \<Rightarrow> Undefined_behaviour
      | Some t \<Rightarrow>
          if \<not> ncols t \<le> ncols_new then Assert_abort
          else if ncols t < 0 then Undefined_behaviour
          else
            (let t2 = prepare_receiver extract t ncols_new;
                 h2 = h(this \<mapsto> t2)
             in case sum_nrows h2 (nrows t2) dts of
                  None \<Rightarrow> Undefined_behaviour
                | Some nrows_new \<Rightarrow>
                    (case rbind_loop crbind extract this dts cols ncols_new 0 h2 of
                       Returned_this h3 \<Rightarrow>
                         (case h3 this of
                            None \<Rightarrow> Undefined_behaviour
                          | Some t3 \<Rightarrow>
                              Returned_this (h3(this \<mapsto> t3\<lparr>ncols := ncols_new, nrows := nrows_new\<rparr>)))
                     | Undefined_behaviour \<Rightarrow> Undefined_behaviour
                     | Assert_abort \<Rightarrow> Assert_abort
                     | Returned_NULL h3 \<Rightarrow> Returned_NULL h3)))"

text \<open>What a call leaves behind, for stating its effect.\<close>

fun returned_store :: "'h outcome \<Rightarrow> 'h option" where
  "returned_store (Returned_NULL h) = Some h"
| "returned_store (Returned_this h) = Some h"
| "returned_store Undefined_behaviour = None"
| "returned_store Assert_abort = None"

fun reports_failure :: "'h outcome \<Rightarrow> bool" where
  "reports_failure (Returned_NULL h) = True"
| "reports_failure (Returned_this h) = False"
| "reports_failure Undefined_behaviour = False"
| "reports_failure Assert_abort = False"

definition table_after :: "('v, 'r) heap outcome \<Rightarrow> addr \<Rightarrow> ('v, 'r) datatable option" where
  "table_after r p = (case returned_store r of None \<Rightarrow> None | Some h \<Rightarrow> h p)"

text \<open>The row count of the table at an address.\<close>

definition nrows_at :: "('v, 'r) heap \<Rightarrow> addr \<Rightarrow> int" where
  "nrows_at h p = (case h p of None \<Rightarrow> 0 | Some d \<Rightarrow> nrows d)"

text \<open>Two states of a table that differ at most in the contents of the column array.\<close>

definition same_shape :: "('v, 'r) datatable \<Rightarrow> ('v, 'r) datatable \<Rightarrow> bool" where
  "same_shape t t' \<longleftrightarrow> nrows t' = nrows t \<and> ncols t' = ncols t \<and> rowindex t' = rowindex t
     \<and> length (columns t') = length (columns t)"

text \<open>
  The invariant of the data model: \<open>nrows\<close> is a row count that fits the field, and
  every column of the table, seen through the table-level row index when there is one,
  has \<open>nrows\<close> rows.
\<close>

definition wf_table :: "('r \<Rightarrow> 'v column \<Rightarrow> 'v column option) \<Rightarrow> ('v, 'r) datatable \<Rightarrow> bool" where
  "wf_table extract d \<longleftrightarrow>
     0 \<le> nrows d \<and> int64_ok (nrows d) \<and>
     (\<forall>c\<in>set (columns d).
        case c of
          None \<Rightarrow> True
        | Some col \<Rightarrow>
            (case rowindex d of
               None \<Rightarrow> length (rows col) = nat (nrows d)
             | Some ri \<Rightarrow>
                 (case extract ri col of
                    None \<Rightarrow> True
                  | Some x \<Rightarrow> length (rows x) = nat (nrows d))))"

section \<open>Binning\<close>

subsection \<open>Double precision\<close>

text \<open>
  A \<open>double\<close> is an IEEE 754 binary64 value: a finite number, an infinity or NaN. A
  finite value is the real number it denotes, and the two zeros are one value: only a
  division by zero tells them apart, and the one division of this code divides by
  \<open>max - min\<close> for \<open>min \<noteq> max\<close>, which is not zero for two doubles. Every operation
  gives the exact result rounded to the nearest \<open>double\<close>, ties to the even significand.
\<close>

datatype double = Finite real | PlusInf | MinusInf | NaN

definition pow2 :: "int \<Rightarrow> real" where
  "pow2 e = (if 0 \<le> e then 2 ^ nat e else 1 / 2 ^ nat (- e))"

text \<open>The exponent of the power of two at or below \<open>\<bar>x\<bar>\<close>.\<close>

definition binade :: "real \<Rightarrow> int" where
  "binade x = \<lfloor>log 2 \<bar>x\<bar>\<rfloor>"

text \<open>
  The exponent of the spacing of the doubles around \<open>x\<close>: 53 significant bits, and
  the spacing of the subnormal numbers below the smallest normal one.
\<close>

definition ulp_exponent :: "real \<Rightarrow> int" where
  "ulp_exponent x = max (binade x - 52) (- 1074)"

definition round_half_even :: "real \<Rightarrow> int" where
  "round_half_even y =
     (let f = \<lfloor>y\<rfloor>
      in if y - of_int f < 1 / 2 then f
         else if 1 / 2 < y - of_int f then f + 1
         else if even f then f else f + 1)"

definition round_to_grid :: "real \<Rightarrow> real" where
  "round_to_grid x =
     (if x = 0 then 0
      else of_int (round_half_even (x / pow2 (ulp_exponent x))) * pow2 (ulp_exponent x))"

text \<open>The \<open>double\<close> nearest to a real number; beyond the largest one it is an infinity.\<close>

definition round_to_double :: "real \<Rightarrow> double" where
  "round_to_double x =
     (let r = round_to_grid x
      in if 2 ^ 1024 \<le> \<bar>r\<bar> then (if 0 < r then PlusInf else MinusInf) else Finite r)"

text \<open>The sign of a value that is not NaN, and the infinity of a sign.\<close>

fun dsign :: "double \<Rightarrow> int" where
  "dsign (Finite x) = (if 0 < x then 1 else if x < 0 then - 1 else 0)"
| "dsign PlusInf = 1"
| "dsign MinusInf = - 1"
| "dsign NaN = 0"

definition inf_of_sign :: "int \<Rightarrow> double" where
  "inf_of_sign s = (if 0 < s then PlusInf else if s < 0 then MinusInf else NaN)"

fun fneg :: "double \<Rightarrow> double" where
  "fneg (Finite x) = Finite (- x)"
| "fneg PlusInf = MinusInf"
| "fneg MinusInf = PlusInf"
| "fneg NaN = NaN"

definition fadd :: "double \<Rightarrow> double \<Rightarrow> double" where
  "fadd a b =
     (if a = NaN \<or> b = NaN then NaN
      else case (a, b) of
             (Finite x, Finite y) \<Rightarrow> round_to_double (x + y)
           | (Finite x, _) \<Rightarrow> b
           | (_, Finite y) \<Rightarrow> a
           | (_, _) \<Rightarrow> if a = b then a else NaN)"

definition fsub :: "double \<Rightarrow> double \<Rightarrow> double" where
  "fsub a b = fadd a (fneg b)"

definition fmul :: "double \<Rightarrow> double \<Rightarrow> double" where
  "fmul a b =
     (if a = NaN \<or> b = NaN then NaN
      else case (a, b) of
             (Finite x, Finite y) \<Rightarrow> round_to_double (x * y)
           | (_, _) \<Rightarrow> inf_of_sign (dsign a * dsign b))"

text \<open>A finite value divided by zero takes the sign of the dividend: the zero is read as
  positive.\<close>

definition fdiv :: "double \<Rightarrow> double \<Rightarrow> double" where
  "fdiv a b =
     (if a = NaN \<or> b = NaN then NaN
      else case (a, b) of
             (Finite x, Finite y) \<Rightarrow>
               if y = 0 then inf_of_sign (dsign a) else round_to_double (x / y)
           | (Finite x, _) \<Rightarrow> Finite 0
           | (_, Finite y) \<Rightarrow> inf_of_sign (dsign a * (if y < 0 then - 1 else 1))
           | (_, _) \<Rightarrow> NaN)"

text \<open>\<open>a == b\<close> on doubles: NaN equals nothing.\<close>

definition feq :: "double \<Rightarrow> double \<Rightarrow> bool" where
  "feq a b \<longleftrightarrow> a \<noteq> NaN \<and> a = b"

text \<open>The conversions of an \<open>int\<close> and of a \<open>size_t\<close> to \<open>double\<close>.\<close>

definition double_of_int :: "int \<Rightarrow> double" where
  "double_of_int n = round_to_double (of_int n)"

definition double_of_size_t :: "nat \<Rightarrow> double" where
  "double_of_size_t n = round_to_double (real n)"

definition int32_ok :: "int \<Rightarrow> bool" where
  "int32_ok x \<longleftrightarrow> - (2 ^ 31) \<le> x \<and> x < 2 ^ 31"

definition trunc_toward_zero :: "real \<Rightarrow> int" where
  "trunc_toward_zero x = (if 0 \<le> x then \<lfloor>x\<rfloor> else \<lceil>x\<rceil>)"

text \<open>
  \<open>static_cast<int32_t>(x)\<close> of a \<open>double\<close>: the fraction is dropped, towards zero.
  The conversion is undefined (\<open>None\<close>) for NaN, for an infinity and where the
  truncated value does not fit 32 bits.
\<close>

fun static_cast_int32 :: "double \<Rightarrow> int option" where
  "static_cast_int32 (Finite x) =
     (if int32_ok (trunc_toward_zero x) then Some (trunc_toward_zero x) else None)"
| "static_cast_int32 PlusInf = None"
| "static_cast_int32 MinusInf = None"
| "static_cast_int32 NaN = None"

text \<open>\<open>std::numeric_limits<float>::epsilon()\<close>, and its conversion to \<open>double\<close>.\<close>

definition eps_float :: real where
  "eps_float = 1 / 2 ^ 23"

definition epsilon :: double where
  "epsilon = Finite eps_float"

subsection \<open>The Cut column\<close>

text \<open>
  A column as the binning code sees it: the row count, the storage type, the element
  read \<open>get_element(i, &value)\<close> (the validity flag and the value written) and what the
  statistics provider answers to \<open>get_stat(Stat::Min, &tmin)\<close> and
  \<open>get_stat(Stat::Max, &tmax)\<close> (again a validity flag and a value). \<open>'a\<close> is the
  element type \<open>T\<close>.
\<close>

record 'a Column =
  col_nrows :: nat
  col_stype :: SType
  col_element :: "nat \<Rightarrow> bool \<times> 'a"
  stat_min :: "bool \<times> 'a"
  stat_max :: "bool \<times> 'a"

type_synonym int32 = "32 word"

text \<open>
  The two implementations the factory returns, each with the \<open>nrows\<close> and \<open>stype\<close> its
  base class stores. \<open>ConstNa_ColumnImpl\<close> is not in the sources; by the spec it is the
  column whose every element is NA.
\<close>

datatype ColumnImpl =
  ConstNa_ColumnImpl nat SType
| Cut_ColumnImpl_obj nat SType "double Column" double double int32

fun impl_nrows :: "ColumnImpl \<Rightarrow> nat" where
  "impl_nrows (ConstNa_ColumnImpl n st) = n"
| "impl_nrows (Cut_ColumnImpl_obj n st col a b shift) = n"

fun impl_stype :: "ColumnImpl \<Rightarrow> SType" where
  "impl_stype (ConstNa_ColumnImpl n st) = st"
| "impl_stype (Cut_ColumnImpl_obj n st col a b shift) = st"

text \<open>
  \<open>set_cut_coeffs\<close>, lines 141 to 161; the result is \<open>(a, b, shift)\<close>, and
  \<open>dmin\<close>, \<open>dmax\<close> are the arguments \<open>min\<close>, \<open>max\<close>. Every arithmetic operation of
  the source is one rounded operation here, in the order the expression is parsed;
  \<open>1 - 2 * right_closed\<close> is integer arithmetic on the flag read as 0 or 1. \<open>nbins\<close>
  is a \<open>size_t\<close>, and \<open>static_cast<int32_t>(nbins)\<close> keeps its low 32 bits.
\<close>

definition set_cut_coeffs :: "double \<Rightarrow> double \<Rightarrow> nat \<Rightarrow> bool \<Rightarrow> double \<times> double \<times> int32" where
  "set_cut_coeffs dmin dmax nbins right_closed =
     (if feq dmin dmax then
        (double_of_int 0,
         fmul (fmul (Finite (1 / 2)) (double_of_size_t nbins))
           (fadd (double_of_int 1)
              (fmul (double_of_int (1 - 2 * (if right_closed then 1 else 0))) epsilon)),
         0)
      else
        (let a = fdiv (fmul (fsub (double_of_int 1) epsilon) (double_of_size_t nbins))
                   (fsub dmax dmin);
             b = fmul (fneg a) dmin
         in if \<not> right_closed
            then (a, fadd b (fmul (fsub epsilon (double_of_int 1)) (double_of_size_t nbins)),
                  word_of_nat nbins - 1)
            else (a, b, 0)))"

text \<open>The constructor, lines 112 to 117.\<close>

definition Cut_ColumnImpl :: "double Column \<Rightarrow> double \<Rightarrow> double \<Rightarrow> int32 \<Rightarrow> ColumnImpl" where
  "Cut_ColumnImpl col a b shift = Cut_ColumnImpl_obj (col_nrows col) ST_INT32 col a b shift"

text \<open>
  Modelled from the spec: \<open>Column::cast_inplace\<close>, which is not in the sources. The
  column keeps its rows and their validity; the values are converted and the storage
  type becomes the target's.
\<close>

definition cast_inplace :: "('a \<Rightarrow> double) \<Rightarrow> 'a Column \<Rightarrow> double Column" where
  "cast_inplace to_double col =
     \<lparr>col_nrows = col_nrows col, col_stype = ST_FLOAT64,
      col_element = (\<lambda>i. (fst (col_element col i), to_double (snd (col_element col i)))),
      stat_min = (fst (stat_min col), to_double (snd (stat_min col))),
      stat_max = (fst (stat_max col), to_double (snd (stat_max col)))\<rparr>"

text \<open>
  The factory \<open>make<T>\<close>, lines 91 to 110. \<open>_isinf\<close> on \<open>T\<close> is not in the sources and
  is the parameter \<open>isinf\<close>; \<open>to_double\<close> is \<open>static_cast<double>\<close> on \<open>T\<close>.
\<close>

definition make ::
  "('a \<Rightarrow> bool) \<Rightarrow> ('a \<Rightarrow> double) \<Rightarrow> 'a Column \<Rightarrow> nat \<Rightarrow> bool \<Rightarrow> ColumnImpl" where
  "make isinf to_double col nbins right_closed =
     (let (min_valid, tmin) = stat_min col;
          (max_valid, tmax) = stat_max col
      in if \<not> min_valid \<or> \<not> max_valid \<or> isinf tmin \<or> isinf tmax \<or> nbins = 0
         then ConstNa_ColumnImpl (col_nrows col) ST_INT32
         else
           (let dmin = to_double tmin;
                dmax = to_double tmax;
                col' = cast_inplace to_double col;
                (a, b, shift) = set_cut_coeffs dmin dmax nbins right_closed
            in Cut_ColumnImpl col' a b shift))"

text \<open>
  What a call of \<open>get_element(i, &out)\<close> leaves in \<open>out\<close>: nothing, a 32-bit value, or
  a value the language does not define (the conversion of the \<open>double\<close> is undefined,
  or the signed addition of \<open>shift_\<close> overflows).
\<close>

datatype written = Nothing_written | Written int | Undefined_value

text \<open>
  \<open>get_element(i, &out)\<close>: the returned flag and what is written to \<open>out\<close>. The Cut
  case is lines 133 to 138, with the product and the sum each rounded; the
  constant-NA case follows the spec: it reports an invalid element and writes nothing.
\<close>

fun get_element :: "ColumnImpl \<Rightarrow> nat \<Rightarrow> bool \<times> written" where
  "get_element (ConstNa_ColumnImpl n st) i = (False, Nothing_written)"
| "get_element (Cut_ColumnImpl_obj n st col a b shift) i =
     (let (is_valid, value) = col_element col i
      in (is_valid,
          case static_cast_int32 (fadd (fmul a value) b) of
            None \<Rightarrow> Undefined_value
          | Some c \<Rightarrow> if int32_ok (c + sint shift) then Written (c + sint shift)
                      else Undefined_value))"

text \<open>
  \<open>_isinf\<close> and \<open>static_cast<double>\<close> at \<open>T = double\<close>.
\<close>

definition isinf_double :: "double \<Rightarrow> bool" where
  "isinf_double x \<longleftrightarrow> x = PlusInf \<or> x = MinusInf"

definition double_of_double :: "double \<Rightarrow> double" where
  "double_of_double x = x"

section \<open>Concrete inputs\<close>

text \<open>A column of doubles with the rows 0, 1/2, 1 and the statistics 0 and 1.\<close>

definition cut_example :: "double Column" where
  "cut_example =
     \<lparr>col_nrows = 3, col_stype = ST_FLOAT64,
      col_element = (\<lambda>i. if i = 0 then (True, Finite 0) else if i = 1 then (True, Finite (1 / 2))
                          else if i = 2 then (True, Finite 1) else (False, Finite 0)),
      stat_min = (True, Finite 0), stat_max = (True, Finite 1)\<rparr>"

text \<open>A column of two NA rows: its statistics are invalid.\<close>

definition na_example :: "double Column" where
  "na_example =
     \<lparr>col_nrows = 2, col_stype = ST_FLOAT64, col_element = (\<lambda>i. (False, Finite 0)),
      stat_min = (False, Finite 0), stat_max = (False, Finite 0)\<rparr>"

text \<open>A column with the rows \<open>10\<^sup>9\<close> and \<open>10\<^sup>9 + 1/2\<close>, which are its statistics.\<close>

definition big_example :: "double Column" where
  "big_example =
     \<lparr>col_nrows = 2, col_stype = ST_FLOAT64,
      col_element = (\<lambda>i. if i = 0 then (True, Finite 1000000000)
                          else (True, Finite (2000000001 / 2))),
      stat_min = (True, Finite 1000000000), stat_max = (True, Finite (2000000001 / 2))\<rparr>"

text \<open>
  An explicit index array as row index, with \<open>Column::extract\<close> reading through it; an
  index outside the column gives NA.
\<close>

definition index_extract :: "nat list \<Rightarrow> 'v column \<Rightarrow> 'v column option" where
  "index_extract ri c =
     Some \<lparr>stype = stype c, rows = map (\<lambda>k. if k < length (rows c) then rows c ! k else None) ri\<rparr>"

text \<open>A fusion rule under which strings fuse only with strings and void columns.\<close>

definition str_fusable :: "SType list \<Rightarrow> bool" where
  "str_fusable ss \<longleftrightarrow> ST_STRING \<notin> set ss \<or> set ss \<subseteq> {ST_STRING, ST_VOID}"

text \<open>Column mappings: every field matched by position, and no field matched.\<close>

definition colmap_id :: "nat \<Rightarrow> nat \<Rightarrow> int" where
  "colmap_id i j = int i"

definition colmap_na :: "nat \<Rightarrow> nat \<Rightarrow> int" where
  "colmap_na i j = - 1"

text \<open>The tables of the two row-binding scenarios: A holds 10, 20 and B holds 30.\<close>

definition tabA :: "(int, nat list) datatable" where
  "tabA = \<lparr>nrows = 2, ncols = 1, rowindex = None,
           columns = [Some \<lparr>stype = ST_INT32, rows = [Some 10, Some 20]\<rparr>, None]\<rparr>"

definition tabB :: "(int, nat list) datatable" where
  "tabB = \<lparr>nrows = 1, ncols = 1, rowindex = None,
           columns = [Some \<lparr>stype = ST_INT32, rows = [Some 30]\<rparr>, None]\<rparr>"

definition heapAB :: "(int, nat list) heap" where
  "heapAB = [0 \<mapsto> tabA, 1 \<mapsto> tabB]"

text \<open>Two tables of two columns; the second column of C holds strings, that of D integers.\<close>

definition tabC :: "(int, nat list) datatable" where
  "tabC = \<lparr>nrows = 1, ncols = 2, rowindex = None,
           columns = [Some \<lparr>stype = ST_INT32, rows = [Some 1]\<rparr>,
                      Some \<lparr>stype = ST_STRING, rows = [Some 2]\<rparr>, None]\<rparr>"

definition tabD :: "(int, nat list) datatable" where
  "tabD = \<lparr>nrows = 1, ncols = 2, rowindex = None,
           columns = [Some \<lparr>stype = ST_INT32, rows = [Some 3]\<rparr>,
                      Some \<lparr>stype = ST_INT32, rows = [Some 4]\<rparr>, None]\<rparr>"

definition heapCD :: "(int, nat list) heap" where
  "heapCD = [0 \<mapsto> tabC, 1 \<mapsto> tabD]"

text \<open>The store after C has been bound with D up to the column that does not fuse.\<close>

definition heapCD_failed :: "(int, nat list) heap" where
  "heapCD_failed = heapCD(0 \<mapsto> \<lparr>nrows = 1, ncols = 2, rowindex = None,
       columns = [Some \<lparr>stype = ST_INT32, rows = [Some 1, Some 3]\<rparr>,
                  Some \<lparr>stype = ST_STRING, rows = [Some 2]\<rparr>, None]\<rparr>)"

section \<open>Properties of binning\<close>

subsection \<open>Rounding\<close>

lemma pow2_powr: "pow2 e = 2 powr (of_int e)"
proof (cases "0 \<le> e")
  case True
  then show ?thesis by (simp add: pow2_def powr_realpow [symmetric])
next
  case False
  then have "(2::real) powr (of_int e) = 1 / 2 powr (of_int (- e))"
    by (simp add: powr_minus_divide)
  also have "\<dots> = 1 / 2 ^ nat (- e)"
    using False powr_realpow [of "2::real" "nat (- e)"] by simp
  finally show ?thesis using False by (simp add: pow2_def)
qed

lemma pow2_pos: "0 < pow2 e"
  by (simp add: pow2_def)

lemma binade_eq:
  assumes "pow2 k \<le> \<bar>x\<bar>" "\<bar>x\<bar> < pow2 (k + 1)"
  shows "binade x = k"
proof -
  have pos: "0 < \<bar>x\<bar>" using assms(1) pow2_pos [of k] by linarith
  have "of_int k \<le> log 2 \<bar>x\<bar>"
    using assms(1) pos by (simp add: le_log_iff pow2_powr)
  moreover have "log 2 \<bar>x\<bar> < of_int k + 1"
    using assms(2) pos by (simp add: log_less_iff pow2_powr)
  ultimately show ?thesis unfolding binade_def by (rule floor_unique)
qed

lemma round_half_even_int: "round_half_even (of_int m) = m"
  by (simp add: round_half_even_def)

text \<open>Rounding a number whose binade \<open>k\<close> is known.\<close>

lemma round_eval:
  assumes "pow2 k \<le> \<bar>x\<bar>" "\<bar>x\<bar> < pow2 (k + 1)"
    and "round_half_even (x / pow2 (max (k - 52) (- 1074))) = m"
    and "\<bar>of_int m * pow2 (max (k - 52) (- 1074))\<bar> < 2 ^ 1024"
  shows "round_to_double x = Finite (of_int m * pow2 (max (k - 52) (- 1074)))"
proof -
  have "x \<noteq> 0" using assms(1) pow2_pos [of k] by auto
  moreover have "ulp_exponent x = max (k - 52) (- 1074)"
    by (simp add: ulp_exponent_def binade_eq [OF assms(1,2)])
  ultimately have "round_to_grid x = of_int m * pow2 (max (k - 52) (- 1074))"
    using assms(3) by (simp add: round_to_grid_def)
  then show ?thesis using assms(4) by (simp add: round_to_double_def)
qed

text \<open>A number on the grid of its binade is a \<open>double\<close>: rounding leaves it as it is.\<close>

lemma round_exact:
  assumes "pow2 k \<le> \<bar>x\<bar>" "\<bar>x\<bar> < pow2 (k + 1)"
    and "x = of_int m * pow2 (max (k - 52) (- 1074))" and "\<bar>x\<bar> < 2 ^ 1024"
  shows "round_to_double x = Finite x"
proof -
  have "x / pow2 (max (k - 52) (- 1074)) = of_int m"
    using assms(3) pow2_pos [of "max (k - 52) (- 1074)"] by simp
  then have "round_half_even (x / pow2 (max (k - 52) (- 1074))) = m"
    by (simp only: round_half_even_int)
  from round_eval [OF assms(1,2) this] assms(3,4) show ?thesis by simp
qed

lemma round_0: "round_to_double 0 = Finite 0"
  by (simp add: round_to_double_def round_to_grid_def)

lemma round_1: "round_to_double 1 = Finite 1"
  by (rule round_exact [where k = 0 and m = "2 ^ 52"]) (simp_all add: pow2_def)

lemma round_minus_1: "round_to_double (- 1) = Finite (- 1)"
  by (rule round_exact [where k = 0 and m = "- (2 ^ 52)"]) (simp_all add: pow2_def)

lemma round_2: "round_to_double 2 = Finite 2"
  by (rule round_exact [where k = 1 and m = "2 ^ 52"]) (simp_all add: pow2_def)

lemma round_3: "round_to_double 3 = Finite 3"
  by (rule round_exact [where k = 1 and m = "3 * 2 ^ 51"]) (simp_all add: pow2_def)

lemma round_eps: "round_to_double (1 / 8388608) = Finite (1 / 8388608)"
  by (rule round_exact [where k = "- 23" and m = "2 ^ 52"]) (simp_all add: pow2_def)

lemma round_minus_eps: "round_to_double (- (1 / 8388608)) = Finite (- (1 / 8388608))"
  by (rule round_exact [where k = "- 23" and m = "- (2 ^ 52)"]) (simp_all add: pow2_def)

lemma round_below_1: "round_to_double (8388607 / 8388608) = Finite (8388607 / 8388608)"
  by (rule round_exact [where k = "- 1" and m = "8388607 * 2 ^ 30"]) (simp_all add: pow2_def)

lemma round_above_minus_1:
  "round_to_double (- (8388607 / 8388608)) = Finite (- (8388607 / 8388608))"
  by (rule round_exact [where k = "- 1" and m = "- (8388607 * 2 ^ 30)"]) (simp_all add: pow2_def)

lemma round_below_2: "round_to_double (8388607 / 4194304) = Finite (8388607 / 4194304)"
  by (rule round_exact [where k = 0 and m = "8388607 * 2 ^ 30"]) (simp_all add: pow2_def)

lemma round_above_minus_2:
  "round_to_double (- (8388607 / 4194304)) = Finite (- (8388607 / 4194304))"
  by (rule round_exact [where k = 0 and m = "- (8388607 * 2 ^ 30)"]) (simp_all add: pow2_def)

text \<open>A quotient that is not a \<open>double\<close>: \<open>(1 - 2\<^sup>-\<^sup>2\<^sup>3) / 3\<close>.\<close>

lemma round_third:
  "round_to_double (8388607 / 25165824) = Finite (6004798787332779 / 18014398509481984)"
proof -
  have "round_half_even (8388607 / 25165824 / pow2 (max (- 2 - 52) (- 1074))) = 6004798787332779"
    by (simp add: pow2_def round_half_even_def)
  from round_eval [where k = "- 2", OF _ _ this] show ?thesis by (simp add: pow2_def)
qed

lemmas round_values = round_0 round_1 round_minus_1 round_2 round_3 round_eps round_minus_eps
  round_below_1 round_above_minus_1 round_below_2 round_above_minus_2 round_third

lemmas double_eval = fadd_def fsub_def fmul_def fdiv_def feq_def double_of_int_def
  double_of_size_t_def epsilon_def eps_float_def round_values

subsection \<open>The exact value of the formulas\<close>

lemma sint_int32_of_int:
  "- (2 ^ 31) \<le> k \<Longrightarrow> k < 2 ^ 31 \<Longrightarrow> sint (word_of_int k :: int32) = k"
  by (simp add: sint_sbintrunc' signed_take_bit_int_eq_self)

lemma shift_value:
  assumes "nbins < 2 ^ 31"
  shows "sint (word_of_nat nbins - 1 :: int32) = int nbins - 1"
proof -
  have "(word_of_nat nbins - 1 :: int32) = word_of_int (int nbins - 1)" by simp
  moreover have "- (2 ^ 31) \<le> int nbins - 1" "int nbins - 1 < 2 ^ 31" using assms by auto
  ultimately show ?thesis by (simp only: sint_int32_of_int)
qed




lemma trunc_floor:
  "trunc_toward_zero x = (if 0 \<le> x \<or> x \<in> \<int> then \<lfloor>x\<rfloor> else \<lfloor>x\<rfloor> + 1)"
  unfolding trunc_toward_zero_def
  by (auto simp: ceiling_altdef Ints_def)








text \<open>The coefficients of the two-bin example.\<close>

lemma coeffs_two_bins_left:
  "set_cut_coeffs (Finite 0) (Finite 1) 2 False
   = (Finite (8388607 / 4194304), Finite (- (8388607 / 4194304)), 1)"
  by (simp add: set_cut_coeffs_def Let_def double_eval)

lemma coeffs_two_bins_right:
  "set_cut_coeffs (Finite 0) (Finite 1) 2 True = (Finite (8388607 / 4194304), Finite 0, 0)"
  by (simp add: set_cut_coeffs_def Let_def double_eval)

lemmas cut_eval = make_def cut_example_def na_example_def cast_inplace_def isinf_double_def
  double_of_double_def Cut_ColumnImpl_def trunc_toward_zero_def int32_ok_def
  coeffs_two_bins_left coeffs_two_bins_right double_eval

text \<open>The values of the example with large statistics.\<close>

lemma round_half: "round_to_double (1 / 2) = Finite (1 / 2)"
  by (rule round_exact [where k = "- 1" and m = "2 ^ 52"]) (simp_all add: pow2_def)

lemma round_big_1: "round_to_double (25165821 / 8388608) = Finite (25165821 / 8388608)"
  by (rule round_exact [where k = 1 and m = "25165821 * 2 ^ 28"]) (simp_all add: pow2_def)

lemma round_big_2: "round_to_double (25165821 / 4194304) = Finite (25165821 / 4194304)"
  by (rule round_exact [where k = 2 and m = "25165821 * 2 ^ 28"]) (simp_all add: pow2_def)

lemma round_big_3:
  "round_to_double (- (49151994140625 / 8192)) = Finite (- (49151994140625 / 8192))"
  by (rule round_exact [where k = 32 and m = "- 6291455250000000"]) (simp_all add: pow2_def)

lemma round_big_4:
  "round_to_double (50331642025165821 / 8388608) = Finite (49151994165201 / 8192)"
proof -
  have "round_half_even (50331642025165821 / 8388608 / pow2 (max (32 - 52) (- 1074)))
          = 6291455253145728"
    by (simp add: pow2_def round_half_even_def)
  from round_eval [where k = 32, OF _ _ this] show ?thesis by (simp add: pow2_def)
qed

lemma coeffs_big:
  "set_cut_coeffs (Finite 1000000000) (Finite (2000000001 / 2)) 3 True
   = (Finite (25165821 / 4194304), Finite (- (49151994140625 / 8192)), 0)"
  by (simp add: set_cut_coeffs_def Let_def double_eval round_half round_big_1 round_big_2
      round_big_3)

subsection \<open>The factory\<close>

text \<open>
  Claim C4. When the Min statistic is invalid, the Max statistic is invalid, one of them
  is infinite or \<open>nbins\<close> is 0, the factory returns the constant-NA implementation of
  type INT32 with the row count of the source column; reading any element of it reports
  an invalid element and writes no bin id. The factory is a total function: it has no
  branch that throws.
\<close>

theorem make_degenerate_const_na:
  "\<not> fst (stat_min col) \<or> \<not> fst (stat_max col) \<or> isinf (snd (stat_min col))
     \<or> isinf (snd (stat_max col)) \<or> nbins = 0
   \<Longrightarrow> make isinf to_double col nbins right_closed = ConstNa_ColumnImpl (col_nrows col) ST_INT32
       \<and> (\<forall>i. get_element (make isinf to_double col nbins right_closed) i
                 = (False, Nothing_written))"
  by (auto simp: make_def split: prod.splits)

theorem make_degenerate_const_na_witness:
  "\<not> fst (stat_min na_example)
   \<and> make isinf_double double_of_double na_example 4 True = ConstNa_ColumnImpl 2 ST_INT32
   \<and> get_element (make isinf_double double_of_double na_example 4 True) 1
       = (False, Nothing_written)"
  using make_degenerate_const_na [of na_example isinf_double 4 double_of_double True]
  by (simp add: na_example_def)

text \<open>
  Claim C10. In both branches the implementation the factory returns has the row count
  of the input column and the storage type INT32.
\<close>

theorem make_nrows_stype:
  "impl_nrows (make isinf to_double col nbins right_closed) = col_nrows col
   \<and> impl_stype (make isinf to_double col nbins right_closed) = ST_INT32"
  by (auto simp: make_def Cut_ColumnImpl_def cast_inplace_def split: prod.splits)

theorem make_nrows_stype_witness:
  "impl_nrows (make isinf_double double_of_double cut_example 2 True) = 3
   \<and> impl_stype (make isinf_double double_of_double cut_example 2 True) = ST_INT32
   \<and> impl_nrows (make isinf_double double_of_double na_example 2 True) = 2
   \<and> impl_stype (make isinf_double double_of_double na_example 2 True) = ST_INT32"
  using make_nrows_stype [of isinf_double double_of_double cut_example 2 True]
    make_nrows_stype [of isinf_double double_of_double na_example 2 True]
  by (simp add: cut_example_def na_example_def)

text \<open>
  Claim C5, as stated, gives \<open>shift = nbins - 1\<close> at every \<open>nbins > 0\<close> and gives \<open>a\<close>
  and \<open>b\<close> as the values of real formulas. The shift is a 32-bit value computed from
  the low 32 bits of \<open>nbins\<close>: at \<open>nbins = 2\<^sup>3\<^sup>2\<close> it is \<open>-1\<close>. The coefficients are
  doubles, rounded at every operation: for the statistics 0 and 3 and one right-closed
  bin, \<open>a\<close> is not \<open>(1 - \<epsilon>) / 3\<close>, which no \<open>double\<close> equals.
\<close>

theorem set_cut_coeffs_counterexample:
  "sint (snd (snd (set_cut_coeffs (Finite 0) (Finite 1) (2 ^ 32) False))) = - 1
   \<and> sint (snd (snd (set_cut_coeffs (Finite 0) (Finite 1) (2 ^ 32) False))) \<noteq> int (2 ^ 32) - 1
   \<and> fst (set_cut_coeffs (Finite 0) (Finite 3) 1 True)
       = Finite (6004798787332779 / 18014398509481984)
   \<and> (6004798787332779 / 18014398509481984 :: real) \<noteq> (1 - eps_float) * real 1 / (3 - 0)"
  by (simp add: set_cut_coeffs_def Let_def double_eval)

text \<open>
  Claim C5, amended. For all doubles \<open>min\<close> and \<open>max\<close> and every \<open>nbins\<close>, with every
  operation a rounded \<open>double\<close> operation and \<open>\<epsilon> = 2\<^sup>-\<^sup>2\<^sup>3\<close>: if \<open>min == max\<close>, then
  \<open>a = 0\<close>, \<open>shift = 0\<close> and \<open>b\<close> is \<open>0.5 * nbins * (1 - \<epsilon>)\<close> for right-closed bins and
  \<open>0.5 * nbins * (1 + \<epsilon>)\<close> otherwise; if not, \<open>a = (1 - \<epsilon>) * nbins / (max - min)\<close> and
  \<open>b = - a * min\<close>, and for bins that are not right-closed \<open>b\<close> is increased by
  \<open>(\<epsilon> - 1) * nbins\<close> and \<open>shift\<close> is \<open>nbins - 1\<close> in 32 bits, which is \<open>nbins - 1\<close> for
  \<open>nbins\<close> below \<open>2\<^sup>3\<^sup>1\<close> (\<open>shift = 0\<close> for right-closed bins).
\<close>

theorem set_cut_coeffs_formulas:
  "\<exists>a b shift. set_cut_coeffs dmin dmax nbins right_closed = (a, b, shift)
     \<and> (feq dmin dmax \<longrightarrow> a = Finite 0 \<and> sint shift = 0
          \<and> b = fmul (fmul (Finite (1 / 2)) (double_of_size_t nbins))
                  (if right_closed then fsub (Finite 1) epsilon else fadd (Finite 1) epsilon))
     \<and> (\<not> feq dmin dmax \<longrightarrow>
          a = fdiv (fmul (fsub (Finite 1) epsilon) (double_of_size_t nbins)) (fsub dmax dmin)
          \<and> b = (if right_closed then fmul (fneg a) dmin
                 else fadd (fmul (fneg a) dmin)
                        (fmul (fsub epsilon (Finite 1)) (double_of_size_t nbins)))
          \<and> (right_closed \<longrightarrow> sint shift = 0)
          \<and> (\<not> right_closed \<and> nbins < 2 ^ 31 \<longrightarrow> sint shift = int nbins - 1))
     \<and> epsilon = Finite (1 / 2 ^ 23)"
proof -
  have one: "double_of_int 1 = Finite 1" and zero: "double_of_int 0 = Finite 0"
    by (simp_all add: double_of_int_def round_values)
  have minus: "fadd (Finite 1) (fmul (double_of_int (1 - 2 * 1)) epsilon) = fsub (Finite 1) epsilon"
    by (simp add: double_eval)
  have plus: "fadd (Finite 1) (fmul (double_of_int (1 - 2 * 0)) epsilon) = fadd (Finite 1) epsilon"
    by (simp add: double_eval)
  show ?thesis
  proof (cases "feq dmin dmax")
    case True
    then show ?thesis
      using minus plus by (simp add: set_cut_coeffs_def one zero epsilon_def eps_float_def)
  next
    case False
    then show ?thesis
      using shift_value [of nbins]
      by (simp add: set_cut_coeffs_def Let_def one zero epsilon_def eps_float_def)
  qed
qed

theorem set_cut_coeffs_formulas_witness:
  "\<not> feq (Finite 0) (Finite 1) \<and> (2::nat) < 2 ^ 31
   \<and> (\<exists>a b shift. set_cut_coeffs (Finite 0) (Finite 1) 2 False = (a, b, shift)
        \<and> a = fdiv (fmul (fsub (Finite 1) epsilon) (double_of_size_t 2))
                (fsub (Finite 1) (Finite 0))
        \<and> a = Finite (8388607 / 4194304) \<and> sint shift = 1)
   \<and> feq (Finite 1) (Finite 1)
   \<and> (\<exists>a b shift. set_cut_coeffs (Finite 1) (Finite 1) 2 True = (a, b, shift)
        \<and> a = Finite 0 \<and> b = Finite (8388607 / 8388608) \<and> sint shift = 0)"
proof -
  have h: "\<not> feq (Finite 0) (Finite 1)" "(2::nat) < 2 ^ 31" "feq (Finite 1) (Finite 1)"
    by (simp_all add: feq_def)
  have v: "fdiv (fmul (fsub (Finite 1) epsilon) (double_of_size_t 2)) (fsub (Finite 1) (Finite 0))
           = Finite (8388607 / 4194304)"
    "fmul (fmul (Finite (1 / 2)) (double_of_size_t 2)) (fsub (Finite 1) epsilon)
           = Finite (8388607 / 8388608)"
    by (simp_all add: double_eval)
  from set_cut_coeffs_formulas [of "Finite 0" "Finite 1" 2 False]
    set_cut_coeffs_formulas [of "Finite 1" "Finite 1" 2 True] h v
  show ?thesis by auto
qed

subsection \<open>Reading an element\<close>

text \<open>
  Claim C6. For every row and every choice of coefficients, the validity flag that
  \<open>get_element\<close> of a Cut column returns is the validity flag of the child's element.
\<close>

theorem get_element_validity:
  "fst (get_element (Cut_ColumnImpl col a b shift) i) = fst (col_element col i)"
  by (simp add: Cut_ColumnImpl_def split: prod.splits)

theorem get_element_validity_witness:
  "fst (get_element (Cut_ColumnImpl cut_example (Finite 1) (Finite (- 2)) 5) 3) = False
   \<and> fst (col_element cut_example 3) = False
   \<and> fst (get_element (Cut_ColumnImpl cut_example (Finite 1) (Finite (- 2)) 5) 1) = True
   \<and> fst (col_element cut_example 1) = True"
  using get_element_validity [of cut_example "Finite 1" "Finite (- 2)" 5 3]
    get_element_validity [of cut_example "Finite 1" "Finite (- 2)" 5 1]
  by (simp add: cut_example_def)

text \<open>
  Claim C7, as stated, takes the floor of \<open>a * v + b\<close>. With the coefficients of two bins
  that are not right-closed over the statistics 0 and 1, the value 1/2 gives
  \<open>a * v + b = \<epsilon> - 1\<close>, with no rounding: the code writes bin 1, the floor gives bin 0.
\<close>

theorem get_element_floor_counterexample:
  "set_cut_coeffs (Finite 0) (Finite 1) 2 False
     = (Finite (8388607 / 4194304), Finite (- (8388607 / 4194304)), 1)
   \<and> col_element cut_example 1 = (True, Finite (1 / 2))
   \<and> fadd (fmul (Finite (8388607 / 4194304)) (Finite (1 / 2))) (Finite (- (8388607 / 4194304)))
       = Finite (- (8388607 / 8388608))
   \<and> get_element
        (Cut_ColumnImpl cut_example (Finite (8388607 / 4194304))
           (Finite (- (8388607 / 4194304))) 1) 1
       = (True, Written 1)
   \<and> \<lfloor>- (8388607 / 8388608) :: real\<rfloor> + sint (1 :: int32) = 0"
  by (simp add: cut_eval)

text \<open>
  Claim C7, amended. Let the child yield a valid value \<open>v\<close>, and let \<open>x\<close> be the
  \<open>double\<close> \<open>a * v + b\<close> (the product rounded, then the sum rounded). Where \<open>x\<close> is
  finite, \<open>x\<close> without its fraction fits 32 bits and so does its sum with \<open>shift\<close>,
  \<open>get_element\<close> writes \<open>x\<close> truncated towards zero, plus \<open>shift\<close>: the floor of \<open>x\<close>
  where \<open>x\<close> is not negative or is an integer, and the floor plus one elsewhere.
\<close>

theorem get_element_truncates:
  assumes "col_element col i = (True, v)" and "fadd (fmul a v) b = Finite x"
    and "int32_ok (trunc_toward_zero x)" and "int32_ok (trunc_toward_zero x + sint shift)"
  shows "get_element (Cut_ColumnImpl col a b shift) i =
     (True, Written ((if 0 \<le> x \<or> x \<in> \<int> then \<lfloor>x\<rfloor> else \<lfloor>x\<rfloor> + 1) + sint shift))"
  using assms by (simp add: Cut_ColumnImpl_def trunc_floor [symmetric])

theorem get_element_truncates_witness:
  "col_element cut_example 1 = (True, Finite (1 / 2))
   \<and> fadd (fmul (Finite (8388607 / 4194304)) (Finite (1 / 2))) (Finite (- (8388607 / 4194304)))
       = Finite (- (8388607 / 8388608))
   \<and> int32_ok (trunc_toward_zero (- (8388607 / 8388608)))
   \<and> int32_ok (trunc_toward_zero (- (8388607 / 8388608)) + sint (1 :: int32))
   \<and> get_element
        (Cut_ColumnImpl cut_example (Finite (8388607 / 4194304))
           (Finite (- (8388607 / 4194304))) 1) 1
       = (True, Written 1)"
proof -
  have h: "col_element cut_example 1 = (True, Finite (1 / 2))"
    "fadd (fmul (Finite (8388607 / 4194304)) (Finite (1 / 2))) (Finite (- (8388607 / 4194304)))
       = Finite (- (8388607 / 8388608))"
    "int32_ok (trunc_toward_zero (- (8388607 / 8388608)))"
    "int32_ok (trunc_toward_zero (- (8388607 / 8388608)) + sint (1 :: int32))"
    by (simp_all add: cut_eval)
  have fl: "\<lfloor>- (8388607 / 8388608) :: real\<rfloor> = - 1" by simp
  have ni: "- (8388607 / 8388608) \<notin> (\<int> :: real set)"
  proof
    assume "- (8388607 / 8388608) \<in> (\<int> :: real set)"
    then obtain k :: int where "(of_int k :: real) = - (8388607 / 8388608)"
      by (auto simp: Ints_def)
    then have "real_of_int (8388608 * k) = real_of_int (- 8388607)" by simp
    then have "8388608 * k = - 8388607" by (simp only: of_int_eq_iff)
    moreover have "even (8388608 * k)" by simp
    ultimately have "even (- 8388607 :: int)" by simp
    then show False by simp
  qed
  from get_element_truncates [OF h] h fl ni show ?thesis by simp
qed




text \<open>
  Where an operation rounds, the bound can fail. For the statistics \<open>10\<^sup>9\<close> and
  \<open>10\<^sup>9 + 1/2\<close> and three right-closed bins, the product \<open>a * max\<close> is rounded up and
  the value \<open>max\<close> gets bin 3, where the exact value of \<open>a * max + b\<close> truncates to 2.
\<close>

lemma rounding_reaches_nbins:
  "get_element (make isinf_double double_of_double big_example 3 True) 1 = (True, Written 3)
   \<and> trunc_toward_zero (25165821 / 4194304 * (2000000001 / 2) + - (49151994140625 / 8192)) = 2"
  by (simp add: make_def big_example_def cast_inplace_def isinf_double_def double_of_double_def
      Cut_ColumnImpl_def coeffs_big fadd_def fmul_def round_big_4 round_3 trunc_toward_zero_def
      int32_ok_def)

section \<open>Properties of row binding\<close>

subsection \<open>The pieces of the operation\<close>

lemma reify_fields:
  "nrows (reify extr t) = nrows t" "ncols (reify extr t) = ncols t"
  "rowindex (reify extr t) = None"
  by (simp_all add: reify_def split: option.splits)

lemma prepare_receiver_fields:
  "nrows (prepare_receiver extr t nc) = nrows t" "ncols (prepare_receiver extr t nc) = ncols t"
  "rowindex (prepare_receiver extr t nc) = None"
  by (simp_all add: prepare_receiver_def Let_def reify_fields)

lemma sum_nrows_eq:
  "sum_nrows h acc ps = Some r \<Longrightarrow> r = acc + sum_list (map (nrows_at h) ps)"
proof (induction ps arbitrary: acc)
  case Nil
  then show ?case by simp
next
  case (Cons p ps)
  from Cons.prems obtain d where d: "h p = Some d" by (cases "h p") simp_all
  with Cons.prems have "sum_nrows h (acc + nrows d) ps = Some r" by (simp split: if_splits)
  then have "r = acc + nrows d + sum_list (map (nrows_at h) ps)" by (rule Cons.IH)
  moreover have "nrows_at h p = nrows d" using d by (simp add: nrows_at_def)
  ultimately show ?case by simp
qed

lemma sum_nrows_sources:
  "sum_nrows h acc ps = Some r \<Longrightarrow> p \<in> set ps \<Longrightarrow> h p \<noteq> None"
  by (induction ps arbitrary: acc) (auto split: option.splits if_splits)

lemma nrows_at_upd:
  "h self = Some t \<Longrightarrow> nrows t2 = nrows t \<Longrightarrow> nrows_at (h(self \<mapsto> t2)) p = nrows_at h p"
  by (simp add: nrows_at_def)

text \<open>What a call that returns has gone through.\<close>

lemma DataTable_rbind_returns:
  assumes "returned_store (DataTable_rbind crbind extr h self dts cols ncols_new) = Some h'"
  obtains t nr where "h self = Some t" "0 \<le> ncols t" "ncols t \<le> ncols_new"
    "sum_nrows (h(self \<mapsto> prepare_receiver extr t ncols_new)) (nrows t) dts = Some nr"
    "DataTable_rbind crbind extr h self dts cols ncols_new =
       (case rbind_loop crbind extr self dts cols ncols_new 0
               (h(self \<mapsto> prepare_receiver extr t ncols_new)) of
          Returned_this h3 \<Rightarrow>
            (case h3 self of
               None \<Rightarrow> Undefined_behaviour
             | Some t3 \<Rightarrow> Returned_this (h3(self \<mapsto> t3\<lparr>ncols := ncols_new, nrows := nr\<rparr>)))
        | Undefined_behaviour \<Rightarrow> Undefined_behaviour
        | Assert_abort \<Rightarrow> Assert_abort
        | Returned_NULL h3 \<Rightarrow> Returned_NULL h3)"
proof -
  from assms obtain t where ht: "h self = Some t"
    by (cases "h self") (simp_all add: DataTable_rbind_def)
  from assms ht have nc: "0 \<le> ncols t" "ncols t \<le> ncols_new"
    by (auto simp: DataTable_rbind_def split: if_splits)
  let ?h2 = "h(self \<mapsto> prepare_receiver extr t ncols_new)"
  from assms ht nc obtain nr where nr: "sum_nrows ?h2 (nrows t) dts = Some nr"
    by (cases "sum_nrows ?h2 (nrows t) dts")
       (simp_all add: DataTable_rbind_def Let_def prepare_receiver_fields)
  show ?thesis
    by (rule that [OF ht nc nr])
       (use ht nc nr in \<open>simp add: DataTable_rbind_def Let_def prepare_receiver_fields\<close>)
qed

subsection \<open>Arrays and lists\<close>

lemma concat_block:
  "j < length xss \<Longrightarrow> r < length (xss ! j)
   \<Longrightarrow> concat xss ! ((\<Sum>m<j. length (xss ! m)) + r) = xss ! j ! r"
proof (induction xss arbitrary: j)
  case Nil
  then show ?case by simp
next
  case (Cons xs xss)
  show ?case
  proof (cases j)
    case 0
    with Cons.prems show ?thesis by (simp add: nth_append)
  next
    case (Suc j')
    with Cons.prems have "concat xss ! ((\<Sum>m<j'. length (xss ! m)) + r) = xss ! j' ! r"
      by (intro Cons.IH) simp_all
    moreover have "(\<Sum>m<j. length ((xs # xss) ! m)) = length xs + (\<Sum>m<j'. length (xss ! m))"
      unfolding Suc by (simp only: sum.lessThan_Suc_shift nth_Cons_0 nth_Cons_Suc)
    ultimately show ?thesis using Suc by (simp add: nth_append add.assoc)
  qed
qed

lemma fold_null_length:
  "length (fold (\<lambda>i ys. ys[i := None]) is xs) = length xs"
  by (induction "is" arbitrary: xs) simp_all

lemma fold_null_nth:
  "k \<notin> set is \<Longrightarrow> fold (\<lambda>i ys. ys[i := None]) is xs ! k = xs ! k"
  by (induction "is" arbitrary: xs) simp_all

lemma grow_columns_length:
  "length (grow_columns xs nc nc') = nat (nc' + 1)"
  by (simp add: grow_columns_def dtrealloc_def fold_null_length)

lemma grow_columns_nth:
  assumes "0 \<le> k" "k < nc" "nc \<le> nc'"
  shows "grow_columns xs nc nc' ! nat k = (if nat k < length xs then xs ! nat k else None)"
proof -
  have k: "nat k \<notin> set [nat nc ..< nat nc']" "nat k \<noteq> nat nc'" "nat k < nat (nc' + 1)"
    using assms by auto
  have "grow_columns xs nc nc' ! nat k = dtrealloc xs (nat (nc' + 1)) ! nat k"
    using k by (simp add: grow_columns_def fold_null_nth)
  also have "\<dots> = (if nat k < length xs then xs ! nat k else None)"
    using k(3) by (auto simp: dtrealloc_def nth_append)
  finally show ?thesis .
qed

lemma make_contrib_cong:
  "h' p = h p \<Longrightarrow> make_contrib extr h' p c = make_contrib extr h p c"
  by (simp add: make_contrib_def)

lemma fill_cols0_cong:
  "\<forall>p\<in>set ps. h' p = h p \<Longrightarrow> fill_cols0 extr h' row j ps = fill_cols0 extr h row j ps"
proof (induction ps arbitrary: j)
  case Nil
  then show ?case by simp
next
  case (Cons p ps)
  from Cons.prems have "h' p = h p" by simp
  then have "make_contrib extr h' p (row j) = make_contrib extr h p (row j)"
    by (rule make_contrib_cong)
  moreover from Cons have "fill_cols0 extr h' row (Suc j) ps = fill_cols0 extr h row (Suc j) ps"
    by simp
  ultimately show ?case by (simp cong: attempt.case_cong)
qed

lemma fill_cols0_nth:
  "fill_cols0 extr h row j ps = Built cs
   \<Longrightarrow> length cs = length ps
       \<and> (\<forall>m<length ps. make_contrib extr h (ps ! m) (row (j + m)) = Built (cs ! m))"
proof (induction ps arbitrary: j cs)
  case Nil
  then show ?case by simp
next
  case (Cons p ps)
  from Cons.prems obtain c where c: "make_contrib extr h p (row j) = Built c"
    by (cases "make_contrib extr h p (row j)") simp_all
  with Cons.prems obtain cs' where cs': "fill_cols0 extr h row (Suc j) ps = Built cs'"
    by (cases "fill_cols0 extr h row (Suc j) ps") simp_all
  with Cons.prems c have cs: "cs = c # cs'" by simp
  from Cons.IH [OF cs'] have ih: "length cs' = length ps"
    "\<forall>m<length ps. make_contrib extr h (ps ! m) (row (Suc j + m)) = Built (cs' ! m)" by simp_all
  show ?case
  proof (intro conjI allI impI)
    show "length cs = length (p # ps)" using ih cs by simp
  next
    fix m assume "m < length (p # ps)"
    then show "make_contrib extr h ((p # ps) ! m) (row (j + m)) = Built (cs ! m)"
      using c ih cs by (cases m) simp_all
  qed
qed

subsection \<open>The loop over the result columns\<close>

lemma rbind_loop_frame:
  "rbind_loop crbind extr self dts cols n i h = Returned_NULL h'
     \<or> rbind_loop crbind extr self dts cols n i h = Returned_this h'
   \<Longrightarrow> (\<forall>p. p \<noteq> self \<longrightarrow> h' p = h p) \<and> rel_option same_shape (h self) (h' self)"
proof (induction crbind extr self dts cols n i h rule: rbind_loop.induct)
  case (1 crbind extr self dts cols n i h)
  show ?case
  proof (cases "i < n")
    case False
    with "1.prems" have "h' = h" by (simp add: rbind_loop.simps [of _ _ _ _ _ n i])
    then show ?thesis by (cases "h self") (simp_all add: same_shape_def)
  next
    case True
    note lt = this
    show ?thesis
    proof (cases "h self")
      case None
      with lt "1.prems" show ?thesis by (simp add: rbind_loop.simps [of _ _ _ _ _ n i])
    next
      case (Some t)
      note ht = this
      let ?col0 = "if i < ncols t then get_col t i
                   else Some (new_Column ST_VOID (size_t_of (nrows t)))"
      show ?thesis
      proof (cases "fill_cols0 extr h (cols (nat i)) 0 dts")
        case Undef
        with lt ht "1.prems" show ?thesis by (simp add: rbind_loop.simps [of _ _ _ _ _ n i])
      next
        case Failed
        with lt ht "1.prems" have "h' = h" by (simp add: rbind_loop.simps [of _ _ _ _ _ n i])
        then show ?thesis using ht by (simp add: same_shape_def)
      next
        case (Built cols0)
        note fb = this
        show ?thesis
        proof (cases ?col0)
          case None
          with lt ht fb "1.prems" show ?thesis
            by (simp add: rbind_loop.simps [of _ _ _ _ _ n i] Let_def)
        next
          case (Some c0)
          note c0 = this
          show ?thesis
          proof (cases "crbind c0 cols0")
            case None
            with lt ht fb c0 "1.prems" have "h' = h"
              by (simp add: rbind_loop.simps [of _ _ _ _ _ n i] Let_def)
            then show ?thesis using ht by (simp add: same_shape_def)
          next
            case (Some ret)
            let ?h1 = "h(self \<mapsto> t\<lparr>columns := (columns t)[nat i := Some ret]\<rparr>)"
            from lt ht fb c0 Some "1.prems"
            have rec: "rbind_loop crbind extr self dts cols n (i + 1) ?h1 = Returned_NULL h'
               \<or> rbind_loop crbind extr self dts cols n (i + 1) ?h1 = Returned_this h'"
              by (simp add: rbind_loop.simps [of _ _ _ _ _ n i] Let_def)
            have "(\<forall>p. p \<noteq> self \<longrightarrow> h' p = ?h1 p) \<and> rel_option same_shape (?h1 self) (h' self)"
              by (rule "1.IH" [OF lt ht refl fb c0 Some rec])
            then show ?thesis using ht
              by (cases "h' self") (auto simp: same_shape_def)
          qed
        qed
      qed
    qed
  qed
qed

lemma rbind_loop_done:
  "\<not> i < n \<Longrightarrow> rbind_loop crbind extr self dts cols n i h = Returned_this h"
  by (simp add: rbind_loop.simps [of _ _ _ _ _ n i])

lemma rbind_loop_step:
  assumes run: "rbind_loop crbind extr self dts cols n i h = Returned_this h'" and lt: "i < n"
  shows "\<exists>t cs c0 ret. h self = Some t
     \<and> fill_cols0 extr h (cols (nat i)) 0 dts = Built cs
     \<and> (if i < ncols t then get_col t i else Some (new_Column ST_VOID (size_t_of (nrows t)))) = Some c0
     \<and> crbind c0 cs = Some ret
     \<and> rbind_loop crbind extr self dts cols n (i + 1)
           (h(self \<mapsto> t\<lparr>columns := (columns t)[nat i := Some ret]\<rparr>)) = Returned_this h'"
proof -
  from run lt obtain t where ht: "h self = Some t"
    by (cases "h self") (simp_all add: rbind_loop.simps [of _ _ _ _ _ n i])
  let ?col0 = "if i < ncols t then get_col t i else Some (new_Column ST_VOID (size_t_of (nrows t)))"
  from run lt ht obtain cs where cs: "fill_cols0 extr h (cols (nat i)) 0 dts = Built cs"
    by (cases "fill_cols0 extr h (cols (nat i)) 0 dts")
       (simp_all add: rbind_loop.simps [of _ _ _ _ _ n i])
  from run lt ht cs obtain c0 where c0: "?col0 = Some c0"
    by (cases ?col0) (simp_all add: rbind_loop.simps [of _ _ _ _ _ n i] Let_def)
  from run lt ht cs c0 obtain ret where ret: "crbind c0 cs = Some ret"
    by (cases "crbind c0 cs") (simp_all add: rbind_loop.simps [of _ _ _ _ _ n i] Let_def)
  from run lt ht cs c0 ret
  have "rbind_loop crbind extr self dts cols n (i + 1)
           (h(self \<mapsto> t\<lparr>columns := (columns t)[nat i := Some ret]\<rparr>)) = Returned_this h'"
    by (simp add: rbind_loop.simps [of _ _ _ _ _ n i] Let_def)
  with ht cs c0 ret show ?thesis by blast
qed

lemma get_col_update:
  "get_col (t\<lparr>columns := (columns t)[nat i := x]\<rparr>) k =
     (if 0 \<le> k \<and> nat k < length (columns t) \<and> nat k = nat i then x else get_col t k)"
  by (auto simp: get_col_def)

lemma rbind_loop_lower:
  assumes "rbind_loop crbind extr self dts cols n i h = Returned_this h'"
    and "h self = Some t" and "0 \<le> k" "k < i"
  shows "\<exists>t'. h' self = Some t' \<and> get_col t' k = get_col t k"
  using assms
proof (induction "nat (n - i)" arbitrary: i h t)
  case 0
  then have "\<not> i < n" by simp
  with "0.prems" show ?case by (simp add: rbind_loop_done)
next
  case (Suc d)
  then have lt: "i < n" by simp
  from rbind_loop_step [OF Suc.prems(1) lt] Suc.prems(2) obtain ret where
    rec: "rbind_loop crbind extr self dts cols n (i + 1)
           (h(self \<mapsto> t\<lparr>columns := (columns t)[nat i := Some ret]\<rparr>)) = Returned_this h'"
    by auto
  let ?t1 = "t\<lparr>columns := (columns t)[nat i := Some ret]\<rparr>"
  have d: "d = nat (n - (i + 1))" using Suc.hyps(2) by simp
  have "\<exists>t'. h' self = Some t' \<and> get_col t' k = get_col ?t1 k"
    by (rule Suc.hyps(1) [OF d rec]) (use Suc.prems in simp_all)
  moreover have "nat k \<noteq> nat i" using Suc.prems(3,4) by linarith
  then have "get_col ?t1 k = get_col t k" by (simp add: get_col_update)
  ultimately show ?case by simp
qed

lemma rbind_loop_column:
  assumes "rbind_loop crbind extr self dts cols n i h = Returned_this h'"
    and "h self = Some t" and "self \<notin> set dts"
    and "0 \<le> i" "i \<le> k" "k < n" "nat n \<le> length (columns t)"
  shows "\<exists>t' cs c0 ret. h' self = Some t'
     \<and> fill_cols0 extr h (cols (nat k)) 0 dts = Built cs
     \<and> (if k < ncols t then get_col t k else Some (new_Column ST_VOID (size_t_of (nrows t)))) = Some c0
     \<and> crbind c0 cs = Some ret \<and> get_col t' k = Some ret"
  using assms
proof (induction "nat (n - i)" arbitrary: i h t)
  case 0
  then show ?case by simp
next
  case (Suc d)
  then have lt: "i < n" by simp
  from rbind_loop_step [OF Suc.prems(1) lt] Suc.prems(2) obtain cs c0 ret where
    cs: "fill_cols0 extr h (cols (nat i)) 0 dts = Built cs"
    and c0: "(if i < ncols t then get_col t i
              else Some (new_Column ST_VOID (size_t_of (nrows t)))) = Some c0"
    and ret: "crbind c0 cs = Some ret"
    and rec: "rbind_loop crbind extr self dts cols n (i + 1)
           (h(self \<mapsto> t\<lparr>columns := (columns t)[nat i := Some ret]\<rparr>)) = Returned_this h'"
    by auto
  let ?t1 = "t\<lparr>columns := (columns t)[nat i := Some ret]\<rparr>"
  let ?h1 = "h(self \<mapsto> ?t1)"
  have d: "d = nat (n - (i + 1))" using Suc.hyps(2) by simp
  show ?case
  proof (cases "k = i")
    case True
    have "\<exists>t'. h' self = Some t' \<and> get_col t' k = get_col ?t1 k"
      by (rule rbind_loop_lower [OF rec]) (use True Suc.prems in simp_all)
    moreover have "nat i < length (columns t)" using lt Suc.prems(4,7) by linarith
    then have "get_col ?t1 k = Some ret"
      using True Suc.prems(4) by (simp add: get_col_update)
    ultimately show ?thesis using cs c0 ret True by auto
  next
    case False
    then have ik: "i + 1 \<le> k" using Suc.prems(5) by simp
    have "\<exists>t' cs c0 ret. h' self = Some t'
       \<and> fill_cols0 extr ?h1 (cols (nat k)) 0 dts = Built cs
       \<and> (if k < ncols ?t1 then get_col ?t1 k
           else Some (new_Column ST_VOID (size_t_of (nrows ?t1)))) = Some c0
       \<and> crbind c0 cs = Some ret \<and> get_col t' k = Some ret"
      by (rule Suc.hyps(1) [OF d rec]) (use ik Suc.prems in simp_all)
    moreover have "fill_cols0 extr ?h1 (cols (nat k)) 0 dts = fill_cols0 extr h (cols (nat k)) 0 dts"
      by (rule fill_cols0_cong) (use Suc.prems(3) in auto)
    moreover have "nat k \<noteq> nat i" using False Suc.prems(4,5) by linarith
    then have "get_col ?t1 k = get_col t k" by (simp add: get_col_update)
    ultimately show ?thesis by (cases "k < ncols t") auto
  qed
qed

text \<open>The same without the assumption on the sources: the contributions are built in
  a store \<open>hk\<close> that differs from the first one in the receiver's columns only.\<close>

lemma same_shape_update:
  "same_shape (t\<lparr>columns := (columns t)[k := x]\<rparr>) t' \<Longrightarrow> same_shape t t'"
  by (simp add: same_shape_def)

lemma rbind_loop_column_any:
  assumes "rbind_loop crbind extr self dts cols n i h = Returned_this h'"
    and "h self = Some t"
    and "0 \<le> i" "i \<le> k" "k < n" "nat n \<le> length (columns t)"
  shows "\<exists>t' hk tk cs c0 ret. h' self = Some t'
     \<and> (\<forall>p. p \<noteq> self \<longrightarrow> hk p = h p) \<and> hk self = Some tk \<and> same_shape t tk
     \<and> fill_cols0 extr hk (cols (nat k)) 0 dts = Built cs
     \<and> (if k < ncols t then get_col t k else Some (new_Column ST_VOID (size_t_of (nrows t)))) = Some c0
     \<and> crbind c0 cs = Some ret \<and> get_col t' k = Some ret"
  using assms
proof (induction "nat (n - i)" arbitrary: i h t)
  case 0
  then show ?case by simp
next
  case (Suc d)
  then have lt: "i < n" by simp
  from rbind_loop_step [OF Suc.prems(1) lt] Suc.prems(2) obtain cs c0 ret where
    cs: "fill_cols0 extr h (cols (nat i)) 0 dts = Built cs"
    and c0: "(if i < ncols t then get_col t i
              else Some (new_Column ST_VOID (size_t_of (nrows t)))) = Some c0"
    and ret: "crbind c0 cs = Some ret"
    and rec: "rbind_loop crbind extr self dts cols n (i + 1)
           (h(self \<mapsto> t\<lparr>columns := (columns t)[nat i := Some ret]\<rparr>)) = Returned_this h'"
    by auto
  let ?t1 = "t\<lparr>columns := (columns t)[nat i := Some ret]\<rparr>"
  let ?h1 = "h(self \<mapsto> ?t1)"
  have d: "d = nat (n - (i + 1))" using Suc.hyps(2) by simp
  show ?case
  proof (cases "k = i")
    case True
    have "\<exists>t'. h' self = Some t' \<and> get_col t' k = get_col ?t1 k"
      by (rule rbind_loop_lower [OF rec]) (use True Suc.prems in simp_all)
    moreover have "nat i < length (columns t)" using lt Suc.prems(3,6) by linarith
    then have "get_col ?t1 k = Some ret"
      using True Suc.prems(3) by (simp add: get_col_update)
    ultimately obtain t' where t': "h' self = Some t'" "get_col t' k = Some ret" by auto
    have "h' self = Some t' \<and> (\<forall>p. p \<noteq> self \<longrightarrow> h p = h p) \<and> h self = Some t \<and> same_shape t t
       \<and> fill_cols0 extr h (cols (nat k)) 0 dts = Built cs
       \<and> (if k < ncols t then get_col t k
           else Some (new_Column ST_VOID (size_t_of (nrows t)))) = Some c0
       \<and> crbind c0 cs = Some ret \<and> get_col t' k = Some ret"
      using t' cs c0 ret True Suc.prems(2) by (auto simp: same_shape_def split: if_splits)
    then show ?thesis by blast
  next
    case False
    then have ik: "i + 1 \<le> k" using Suc.prems(4) by simp
    have "\<exists>t' hk tk cs c0 ret. h' self = Some t'
       \<and> (\<forall>p. p \<noteq> self \<longrightarrow> hk p = ?h1 p) \<and> hk self = Some tk \<and> same_shape ?t1 tk
       \<and> fill_cols0 extr hk (cols (nat k)) 0 dts = Built cs
       \<and> (if k < ncols ?t1 then get_col ?t1 k
           else Some (new_Column ST_VOID (size_t_of (nrows ?t1)))) = Some c0
       \<and> crbind c0 cs = Some ret \<and> get_col t' k = Some ret"
      by (rule Suc.hyps(1) [OF d rec]) (use ik Suc.prems in simp_all)
    then obtain t' hk tk cs' c0' ret' where a: "h' self = Some t'"
      "\<forall>p. p \<noteq> self \<longrightarrow> hk p = ?h1 p" "hk self = Some tk" "same_shape ?t1 tk"
      "fill_cols0 extr hk (cols (nat k)) 0 dts = Built cs'"
      "(if k < ncols ?t1 then get_col ?t1 k
           else Some (new_Column ST_VOID (size_t_of (nrows ?t1)))) = Some c0'"
      "crbind c0' cs' = Some ret'" "get_col t' k = Some ret'"
      by blast
    have "nat k \<noteq> nat i" using False Suc.prems(3,4) by linarith
    then have g: "get_col ?t1 k = get_col t k" by (simp add: get_col_update)
    have c: "(if k < ncols t then get_col t k
               else Some (new_Column ST_VOID (size_t_of (nrows t)))) = Some c0'"
      using a(6) g by (cases "k < ncols t") simp_all
    have "\<forall>p. p \<noteq> self \<longrightarrow> hk p = h p" using a(2) by simp
    moreover have "same_shape t tk" using a(4) by (rule same_shape_update)
    ultimately show ?thesis using a c by blast
  qed
qed

subsection \<open>Where the loop stops\<close>

text \<open>A failing step ends the loop with a NULL return and the store as it is.\<close>

lemma rbind_loop_null_step:
  assumes "i < n" "step_fails crbind extr self dts cols i h"
  shows "rbind_loop crbind extr self dts cols n i h = Returned_NULL h"
  using assms
  by (auto simp: step_fails_def rbind_loop.simps [of _ _ _ _ _ n i] Let_def
      split: option.splits attempt.splits)

text \<open>What one pass of the loop body does, when the loop goes on or returns NULL.\<close>

lemma rbind_loop_unfold:
  assumes "i < n"
  shows "rbind_loop crbind extr self dts cols n i h = Undefined_behaviour
     \<or> (step_fails crbind extr self dts cols i h
         \<and> rbind_loop crbind extr self dts cols n i h = Returned_NULL h)
     \<or> (\<not> step_fails crbind extr self dts cols i h
         \<and> (\<exists>t cs c0 ret. h self = Some t
              \<and> fill_cols0 extr h (cols (nat i)) 0 dts = Built cs
              \<and> (if i < ncols t then get_col t i
                  else Some (new_Column ST_VOID (size_t_of (nrows t)))) = Some c0
              \<and> crbind c0 cs = Some ret
              \<and> rbind_loop crbind extr self dts cols n i h =
                  rbind_loop crbind extr self dts cols n (i + 1)
                    (h(self \<mapsto> t\<lparr>columns := (columns t)[nat i := Some ret]\<rparr>))))"
proof (cases "h self")
  case None
  then show ?thesis using assms by (simp add: rbind_loop.simps [of _ _ _ _ _ n i])
next
  case (Some t)
  note ht = this
  let ?col0 = "if i < ncols t then get_col t i else Some (new_Column ST_VOID (size_t_of (nrows t)))"
  show ?thesis
  proof (cases "fill_cols0 extr h (cols (nat i)) 0 dts")
    case Undef
    then show ?thesis using assms ht by (simp add: rbind_loop.simps [of _ _ _ _ _ n i])
  next
    case Failed
    then show ?thesis
      using assms ht by (simp add: rbind_loop.simps [of _ _ _ _ _ n i] step_fails_def)
  next
    case (Built cs)
    note cs = this
    show ?thesis
    proof (cases ?col0)
      case None
      then show ?thesis
        using assms ht cs by (simp add: rbind_loop.simps [of _ _ _ _ _ n i] Let_def)
    next
      case (Some c0)
      note c0 = this
      show ?thesis
      proof (cases "crbind c0 cs")
        case None
        then show ?thesis
          using assms ht cs c0
          by (simp add: rbind_loop.simps [of _ _ _ _ _ n i] Let_def step_fails_def)
      next
        case (Some ret)
        have "\<not> step_fails crbind extr self dts cols i h"
          using ht cs c0 Some by (simp add: step_fails_def)
        moreover have "rbind_loop crbind extr self dts cols n i h =
                  rbind_loop crbind extr self dts cols n (i + 1)
                    (h(self \<mapsto> t\<lparr>columns := (columns t)[nat i := Some ret]\<rparr>))"
          using assms ht cs c0 Some by (simp add: rbind_loop.simps [of _ _ _ _ _ n i] Let_def)
        ultimately show ?thesis using ht cs c0 Some by blast
      qed
    qed
  qed
qed

text \<open>The loop up to \<open>n\<close> is the loop up to \<open>k\<close>, continued from \<open>k\<close>.\<close>

lemma rbind_loop_split:
  assumes "rbind_loop crbind extr self dts cols k i h = Returned_this hk" "i \<le> k" "k \<le> n"
  shows "rbind_loop crbind extr self dts cols n i h = rbind_loop crbind extr self dts cols n k hk"
  using assms
proof (induction "nat (k - i)" arbitrary: i h)
  case 0
  then have "i = k" by simp
  with "0.prems"(1) show ?case by (simp add: rbind_loop_done)
next
  case (Suc d)
  then have lt: "i < k" by simp
  then have ltn: "i < n" using Suc.prems(3) by simp
  from rbind_loop_step [OF Suc.prems(1) lt] obtain t cs c0 ret where
    ht: "h self = Some t" and cs: "fill_cols0 extr h (cols (nat i)) 0 dts = Built cs"
    and c0: "(if i < ncols t then get_col t i
              else Some (new_Column ST_VOID (size_t_of (nrows t)))) = Some c0"
    and ret: "crbind c0 cs = Some ret"
    and rec: "rbind_loop crbind extr self dts cols k (i + 1)
           (h(self \<mapsto> t\<lparr>columns := (columns t)[nat i := Some ret]\<rparr>)) = Returned_this hk"
    by blast
  let ?h1 = "h(self \<mapsto> t\<lparr>columns := (columns t)[nat i := Some ret]\<rparr>)"
  have d: "d = nat (k - (i + 1))" using Suc.hyps(2) by simp
  have "rbind_loop crbind extr self dts cols n (i + 1) ?h1
          = rbind_loop crbind extr self dts cols n k hk"
    by (rule Suc.hyps(1) [OF d rec]) (use lt Suc.prems in simp_all)
  moreover have "rbind_loop crbind extr self dts cols n i h
          = rbind_loop crbind extr self dts cols n (i + 1) ?h1"
    using ltn ht cs c0 ret by (simp add: rbind_loop.simps [of _ _ _ _ _ n i] Let_def)
  ultimately show ?case by simp
qed

text \<open>A NULL return of the loop comes from the first column whose step fails.\<close>

lemma rbind_loop_null_first:
  assumes "rbind_loop crbind extr self dts cols n i h = Returned_NULL h'"
  shows "\<exists>k. i \<le> k \<and> k < n \<and> rbind_loop crbind extr self dts cols k i h = Returned_this h'
           \<and> step_fails crbind extr self dts cols k h'"
  using assms
proof (induction "nat (n - i)" arbitrary: i h)
  case 0
  then have "\<not> i < n" by simp
  with "0.prems" show ?case by (simp add: rbind_loop_done)
next
  case (Suc d)
  then have lt: "i < n" by simp
  from rbind_loop_unfold [OF lt, of crbind extr self dts cols h] Suc.prems
  consider (fail) "step_fails crbind extr self dts cols i h" "h' = h"
    | (go) t cs c0 ret where "h self = Some t"
        "fill_cols0 extr h (cols (nat i)) 0 dts = Built cs"
        "(if i < ncols t then get_col t i
          else Some (new_Column ST_VOID (size_t_of (nrows t)))) = Some c0"
        "crbind c0 cs = Some ret"
        "rbind_loop crbind extr self dts cols n (i + 1)
           (h(self \<mapsto> t\<lparr>columns := (columns t)[nat i := Some ret]\<rparr>)) = Returned_NULL h'"
    by auto
  then show ?case
  proof cases
    case fail
    then have "rbind_loop crbind extr self dts cols i i h = Returned_this h'"
      by (simp add: rbind_loop_done)
    with fail lt show ?thesis by auto
  next
    case go
    let ?h1 = "h(self \<mapsto> t\<lparr>columns := (columns t)[nat i := Some ret]\<rparr>)"
    have d: "d = nat (n - (i + 1))" using Suc.hyps(2) by simp
    from Suc.hyps(1) [OF d go(5)] obtain k where k: "i + 1 \<le> k" "k < n"
      "rbind_loop crbind extr self dts cols k (i + 1) ?h1 = Returned_this h'"
      "step_fails crbind extr self dts cols k h'"
      by blast
    have "rbind_loop crbind extr self dts cols k i h
            = rbind_loop crbind extr self dts cols k (i + 1) ?h1"
      using k(1) go(1-4) by (simp add: rbind_loop.simps [of _ _ _ _ _ k i] Let_def)
    with k show ?thesis by (intro exI [of _ k]) simp
  qed
qed

lemma rbind_loop_null_iff:
  "rbind_loop crbind extr self dts cols n i h = Returned_NULL h' \<longleftrightarrow>
     (\<exists>k. i \<le> k \<and> k < n \<and> rbind_loop crbind extr self dts cols k i h = Returned_this h'
          \<and> step_fails crbind extr self dts cols k h')"
proof
  assume "rbind_loop crbind extr self dts cols n i h = Returned_NULL h'"
  then show "\<exists>k. i \<le> k \<and> k < n \<and> rbind_loop crbind extr self dts cols k i h = Returned_this h'
          \<and> step_fails crbind extr self dts cols k h'"
    by (rule rbind_loop_null_first)
next
  assume "\<exists>k. i \<le> k \<and> k < n \<and> rbind_loop crbind extr self dts cols k i h = Returned_this h'
          \<and> step_fails crbind extr self dts cols k h'"
  then obtain k where k: "i \<le> k" "k < n"
    "rbind_loop crbind extr self dts cols k i h = Returned_this h'"
    "step_fails crbind extr self dts cols k h'" by blast
  have "rbind_loop crbind extr self dts cols n i h = rbind_loop crbind extr self dts cols n k h'"
    by (rule rbind_loop_split [OF k(3) k(1)]) (use k(2) in simp)
  also have "\<dots> = Returned_NULL h'" by (rule rbind_loop_null_step [OF k(2) k(4)])
  finally show "rbind_loop crbind extr self dts cols n i h = Returned_NULL h'" .
qed

text \<open>The loop leaves the slots from its bound on as they are.\<close>

lemma rbind_loop_upper:
  assumes "rbind_loop crbind extr self dts cols n i h = Returned_this h'"
    and "h self = Some t" and "0 \<le> i" "n \<le> j"
  shows "\<exists>t'. h' self = Some t' \<and> get_col t' j = get_col t j"
  using assms
proof (induction "nat (n - i)" arbitrary: i h t)
  case 0
  then have "\<not> i < n" by simp
  with "0.prems" show ?case by (simp add: rbind_loop_done)
next
  case (Suc d)
  then have lt: "i < n" by simp
  from rbind_loop_step [OF Suc.prems(1) lt] Suc.prems(2) obtain ret where
    rec: "rbind_loop crbind extr self dts cols n (i + 1)
           (h(self \<mapsto> t\<lparr>columns := (columns t)[nat i := Some ret]\<rparr>)) = Returned_this h'"
    by auto
  let ?t1 = "t\<lparr>columns := (columns t)[nat i := Some ret]\<rparr>"
  have d: "d = nat (n - (i + 1))" using Suc.hyps(2) by simp
  have "\<exists>t'. h' self = Some t' \<and> get_col t' j = get_col ?t1 j"
    by (rule Suc.hyps(1) [OF d rec]) (use Suc.prems in simp_all)
  moreover have "nat j \<noteq> nat i" using lt Suc.prems(3,4) by linarith
  then have "get_col ?t1 j = get_col t j" by (simp add: get_col_update)
  ultimately show ?case by simp
qed

subsection \<open>Row counts of the fused pieces\<close>

lemma base_column_rows:
  assumes wf: "wf_table extr t" and k: "0 \<le> k" "k < ncols t" "ncols t \<le> nc"
    and c0: "get_col (prepare_receiver extr t nc) k = Some c0"
  shows "length (rows c0) = nat (nrows t)"
proof -
  let ?t1 = "reify extr t"
  have "get_col (prepare_receiver extr t nc) k =
          (if nat k < length (columns ?t1) then columns ?t1 ! nat k else None)"
    using k by (simp add: get_col_def prepare_receiver_def Let_def grow_columns_length
        grow_columns_nth reify_fields)
  with c0 have len: "nat k < length (columns ?t1)" and el: "columns ?t1 ! nat k = Some c0"
    by (auto split: if_splits)
  show ?thesis
  proof (cases "rowindex t")
    case None
    then have "Some c0 \<in> set (columns t)" using len el by (auto simp: reify_def in_set_conv_nth)
    with wf None show ?thesis by (auto simp: wf_table_def)
  next
    case (Some ri)
    then have l: "nat k < length (columns t)" using len by (simp add: reify_def)
    from Some el l obtain col where col: "columns t ! nat k = Some col" "extr ri col = Some c0"
      by (cases "columns t ! nat k") (simp_all add: reify_def)
    then have "Some col \<in> set (columns t)" using l by (auto simp: in_set_conv_nth)
    with wf Some col show ?thesis by (auto simp: wf_table_def)
  qed
qed

lemma size_t_of_nrows: "wf_table extr d \<Longrightarrow> size_t_of (nrows d) = nat (nrows d)"
  by (simp add: wf_table_def size_t_of_def int64_ok_def)

lemma get_col_mem: "get_col d c = Some col \<Longrightarrow> Some col \<in> set (columns d)"
  by (auto simp: get_col_def in_set_conv_nth split: if_splits)

lemma contrib_rows:
  assumes mk: "make_contrib extr h p c = Built x" and hp: "h p = Some d" and wf: "wf_table extr d"
  shows "length (rows x) = nat (nrows d)"
    and "c < 0 \<Longrightarrow> rows x = replicate (nat (nrows d)) None"
proof -
  show "c < 0 \<Longrightarrow> rows x = replicate (nat (nrows d)) None"
    using mk hp size_t_of_nrows [OF wf] by (auto simp: make_contrib_def new_Column_def)
  show "length (rows x) = nat (nrows d)"
  proof (cases "c < 0")
    case True
    then show ?thesis
      using mk hp size_t_of_nrows [OF wf] by (auto simp: make_contrib_def new_Column_def)
  next
    case False
    with mk hp obtain col where col: "get_col d c = Some col"
      by (cases "get_col d c") (auto simp: make_contrib_def split: option.splits)
    then have mem: "Some col \<in> set (columns d)" by (rule get_col_mem)
    show ?thesis
    proof (cases "rowindex d")
      case None
      with mk hp False col have "x = col" by (simp add: make_contrib_def)
      with wf None mem show ?thesis by (auto simp: wf_table_def)
    next
      case (Some ri)
      with mk hp False col have "extr ri col = Some x"
        by (cases "extr ri col") (simp_all add: make_contrib_def)
      with wf Some mem show ?thesis by (auto simp: wf_table_def)
    qed
  qed
qed

lemma concat_rows_length:
  "length (concat (map rows cs)) = (\<Sum>m<length cs. length (rows (cs ! m)))"
proof -
  have "length (concat (map rows cs)) = sum_list (map (\<lambda>c. length (rows c)) cs)"
    by (simp add: length_concat comp_def)
  also have "\<dots> = (\<Sum>m<length cs. length (rows (cs ! m)))"
    by (simp add: sum_list_sum_nth atLeast0LessThan)
  finally show ?thesis .
qed

lemma size_t_of_int64: "int64_ok n \<Longrightarrow> 0 \<le> n \<Longrightarrow> size_t_of n = nat n"
  by (simp add: size_t_of_def int64_ok_def)

lemma void_contrib:
  assumes "make_contrib extr h p c = Built x" "c < 0"
  shows "length (rows x) = size_t_of (nrows_at h p) \<and> (\<forall>v\<in>set (rows x). v = None)"
proof -
  from assms obtain d where d: "h p = Some d"
    by (cases "h p") (simp_all add: make_contrib_def)
  with assms have "x = new_Column ST_VOID (size_t_of (nrows d))"
    by (simp add: make_contrib_def)
  then show ?thesis using d by (simp add: new_Column_def nrows_at_def)
qed

text \<open>
  Where the receiver is not one of its own sources and the tables satisfy the invariant of
  the data model, the pieces of a result column have the row counts of the tables, so
  the blocks lie at the offsets the row counts give.
\<close>

lemma rbind_block_offsets:
  assumes ok: "DataTable_rbind (Column_rbind fusable) extr h self dts cols ncols_new
                 = Returned_this h'"
    and ht: "h self = Some t"
    and distinct: "self \<notin> set dts"
    and wf: "wf_table extr t"
    and wfs: "\<forall>p\<in>set dts. case h p of None \<Rightarrow> True | Some d \<Rightarrow> wf_table extr d"
    and i: "int i < ncols_new"
  shows "\<exists>t' c. h' self = Some t' \<and> get_col t' (int i) = Some c
     \<and> length (rows c) = nat (nrows t) + (\<Sum>m<length dts. nat (nrows_at h (dts ! m)))
     \<and> (ncols t \<le> int i \<longrightarrow> (\<forall>r<nat (nrows t). rows c ! r = None))
     \<and> (\<forall>j<length dts. cols i j < 0 \<longrightarrow>
          (\<forall>r<nat (nrows_at h (dts ! j)).
             rows c ! (nat (nrows t) + (\<Sum>m<j. nat (nrows_at h (dts ! m))) + r) = None))"
proof -
  let ?t2 = "prepare_receiver extr t ncols_new"
  let ?h2 = "h(self \<mapsto> ?t2)"
  let ?L = "\<lambda>m. nat (nrows_at h (dts ! m))"
  from ok have "returned_store (DataTable_rbind (Column_rbind fusable) extr h self dts cols ncols_new)
                  = Some h'" by simp
  then obtain t0 nr where t0: "h self = Some t0" "0 \<le> ncols t0" "ncols t0 \<le> ncols_new"
    and nr: "sum_nrows (h(self \<mapsto> prepare_receiver extr t0 ncols_new)) (nrows t0) dts = Some nr"
    and eq: "DataTable_rbind (Column_rbind fusable) extr h self dts cols ncols_new =
       (case rbind_loop (Column_rbind fusable) extr self dts cols ncols_new 0
               (h(self \<mapsto> prepare_receiver extr t0 ncols_new)) of
          Returned_this h3 \<Rightarrow>
            (case h3 self of
               None \<Rightarrow> Undefined_behaviour
             | Some t3 \<Rightarrow> Returned_this (h3(self \<mapsto> t3\<lparr>ncols := ncols_new, nrows := nr\<rparr>)))
        | Undefined_behaviour \<Rightarrow> Undefined_behaviour
        | Assert_abort \<Rightarrow> Assert_abort
        | Returned_NULL h3 \<Rightarrow> Returned_NULL h3)"
    by (rule DataTable_rbind_returns)
  from t0 ht have [simp]: "t0 = t" by simp
  from ok eq obtain h3 t3 where
    run: "rbind_loop (Column_rbind fusable) extr self dts cols ncols_new 0 ?h2 = Returned_this h3"
    and t3: "h3 self = Some t3" and h': "h' = h3(self \<mapsto> t3\<lparr>ncols := ncols_new, nrows := nr\<rparr>)"
    by (auto split: outcome.splits option.splits)
  have len2: "nat ncols_new \<le> length (columns ?t2)"
    by (simp add: prepare_receiver_def Let_def grow_columns_length)
  have "\<exists>t' cs c0 ret. h3 self = Some t'
     \<and> fill_cols0 extr ?h2 (cols (nat (int i))) 0 dts = Built cs
     \<and> (if int i < ncols ?t2 then get_col ?t2 (int i)
         else Some (new_Column ST_VOID (size_t_of (nrows ?t2)))) = Some c0
     \<and> Column_rbind fusable c0 cs = Some ret \<and> get_col t' (int i) = Some ret"
    by (rule rbind_loop_column [OF run _ distinct _ _ i len2]) simp_all
  then obtain cs c0 ret where
    cs2: "fill_cols0 extr ?h2 (cols i) 0 dts = Built cs"
    and c0: "(if int i < ncols t then get_col ?t2 (int i)
              else Some (new_Column ST_VOID (size_t_of (nrows t)))) = Some c0"
    and ret: "Column_rbind fusable c0 cs = Some ret" and got: "get_col t3 (int i) = Some ret"
    using t3 by (auto simp: prepare_receiver_fields cong: if_cong)
  have "fill_cols0 extr ?h2 (cols i) 0 dts = fill_cols0 extr h (cols i) 0 dts"
    by (rule fill_cols0_cong) (use distinct in auto)
  with cs2 have cs: "fill_cols0 extr h (cols i) 0 dts = Built cs" by simp
  from fill_cols0_nth [OF cs] have lcs: "length cs = length dts"
    and mk: "\<And>m. m < length dts \<Longrightarrow> make_contrib extr h (dts ! m) (cols i m) = Built (cs ! m)"
    by simp_all
  have src: "\<And>m. m < length dts \<Longrightarrow> \<exists>d. h (dts ! m) = Some d \<and> wf_table extr d"
  proof -
    fix m assume m: "m < length dts"
    then have "dts ! m \<in> set dts" by simp
    moreover from mk [OF m] have "h (dts ! m) \<noteq> None"
      by (cases "h (dts ! m)") (simp_all add: make_contrib_def)
    ultimately show "\<exists>d. h (dts ! m) = Some d \<and> wf_table extr d" using wfs by force
  qed
  have lens: "\<And>m. m < length dts \<Longrightarrow> length (rows (cs ! m)) = ?L m"
  proof -
    fix m assume m: "m < length dts"
    from src [OF m] obtain d where d: "h (dts ! m) = Some d" "wf_table extr d" by blast
    from contrib_rows(1) [OF mk [OF m] d] d(1) show "length (rows (cs ! m)) = ?L m"
      by (simp add: nrows_at_def)
  qed
  have rows_ret: "rows ret = rows c0 @ concat (map rows cs)"
    using ret by (auto simp: Column_rbind_def split: if_splits)
  have len0: "length (rows c0) = nat (nrows t)"
  proof (cases "int i < ncols t")
    case True
    with c0 have "get_col ?t2 (int i) = Some c0" by simp
    then show ?thesis using base_column_rows [OF wf _ True t0(3) [simplified]] by simp
  next
    case False
    with c0 show ?thesis using size_t_of_nrows [OF wf] by (auto simp: new_Column_def)
  qed
  have total: "length (rows ret) = nat (nrows t) + (\<Sum>m<length dts. ?L m)"
    using lens by (simp add: rows_ret len0 concat_rows_length lcs)
  have part1: "ncols t \<le> int i \<longrightarrow> (\<forall>r<nat (nrows t). rows ret ! r = None)"
  proof (intro impI allI)
    fix r assume "ncols t \<le> int i" "r < nat (nrows t)"
    with c0 have "rows c0 = replicate (nat (nrows t)) None"
      using size_t_of_nrows [OF wf] by (auto simp: new_Column_def)
    with \<open>r < nat (nrows t)\<close> show "rows ret ! r = None" by (simp add: rows_ret nth_append)
  qed
  have part2: "\<forall>j<length dts. cols i j < 0 \<longrightarrow>
     (\<forall>r<?L j. rows ret ! (nat (nrows t) + (\<Sum>m<j. ?L m) + r) = None)"
  proof (intro allI impI)
    fix j r assume j: "j < length dts" and neg: "cols i j < 0" and r: "r < ?L j"
    from src [OF j] obtain d where d: "h (dts ! j) = Some d" "wf_table extr d" by blast
    from contrib_rows(2) [OF mk [OF j] d neg] d(1)
    have blk: "rows (cs ! j) = replicate (?L j) None" by (simp add: nrows_at_def)
    have "(\<Sum>m<j. ?L m) = (\<Sum>m<j. length (map rows cs ! m))"
      by (rule sum.cong) (use j lcs lens in auto)
    moreover have "concat (map rows cs) ! ((\<Sum>m<j. length (map rows cs ! m)) + r)
                     = map rows cs ! j ! r"
      by (rule concat_block) (use j lcs r blk in simp_all)
    ultimately have "concat (map rows cs) ! ((\<Sum>m<j. ?L m) + r) = None"
      using j lcs r blk by simp
    then show "rows ret ! (nat (nrows t) + (\<Sum>m<j. ?L m) + r) = None"
      by (simp add: rows_ret nth_append len0 add.assoc)
  qed
  have "h' self = Some (t3\<lparr>ncols := ncols_new, nrows := nr\<rparr>)" by (simp add: h')
  moreover have "get_col (t3\<lparr>ncols := ncols_new, nrows := nr\<rparr>) (int i) = get_col t3 (int i)"
    by (simp add: get_col_def)
  ultimately show ?thesis using got total part1 part2 by simp
qed

subsection \<open>Evaluating the concrete inputs\<close>

lemmas rbind_eval = DataTable_rbind_def prepare_receiver_def reify_def grow_columns_def
  dtrealloc_def Let_def rbind_loop.simps make_contrib_def get_col_def Column_rbind_def
  new_Column_def size_t_of_def int64_ok_def promote_def str_fusable_def colmap_id_def
  colmap_na_def index_extract_def upt_conv_Cons numeral_2_eq_2

text \<open>The first scenario of the spec: A bound with B, the field matched.\<close>

lemma scenario_matched:
  "DataTable_rbind (Column_rbind str_fusable) index_extract heapAB 0 [1] colmap_id 1
   = Returned_this (heapAB(0 \<mapsto> \<lparr>nrows = 3, ncols = 1, rowindex = None,
       columns = [Some \<lparr>stype = ST_INT32, rows = [Some 10, Some 20, Some 30]\<rparr>, None]\<rparr>))"
  by (simp add: rbind_eval heapAB_def tabA_def tabB_def)

text \<open>A bound with B into two columns, no field matched.\<close>

lemma scenario_unmatched:
  "DataTable_rbind (Column_rbind str_fusable) index_extract heapAB 0 [1] colmap_na 2
   = Returned_this (heapAB(0 \<mapsto> \<lparr>nrows = 3, ncols = 2, rowindex = None,
       columns = [Some \<lparr>stype = ST_INT32, rows = [Some 10, Some 20, None]\<rparr>,
                  Some \<lparr>stype = ST_VOID, rows = [None, None, None]\<rparr>, None]\<rparr>))"
  by (simp add: rbind_eval heapAB_def tabA_def tabB_def)

text \<open>C bound with D: the first column fuses, the second (strings with integers) does not.\<close>

lemma scenario_failure:
  "DataTable_rbind (Column_rbind str_fusable) index_extract heapCD 0 [1] colmap_id 2
   = Returned_NULL (heapCD(0 \<mapsto> \<lparr>nrows = 1, ncols = 2, rowindex = None,
       columns = [Some \<lparr>stype = ST_INT32, rows = [Some 1, Some 3]\<rparr>,
                  Some \<lparr>stype = ST_STRING, rows = [Some 2]\<rparr>, None]\<rparr>))"
  by (simp add: rbind_eval heapCD_def tabC_def tabD_def)

text \<open>A bound with itself.\<close>

lemma scenario_self:
  "DataTable_rbind (Column_rbind str_fusable) index_extract heapAB 0 [0] colmap_id 1
   = Returned_this (heapAB(0 \<mapsto> \<lparr>nrows = 4, ncols = 1, rowindex = None,
       columns = [Some \<lparr>stype = ST_INT32, rows = [Some 10, Some 20, Some 10, Some 20]\<rparr>,
                  None]\<rparr>))"
  by (simp add: rbind_eval heapAB_def tabA_def tabB_def)

subsection \<open>Failure\<close>

text \<open>
  Claim C1, as stated, leaves the column array of the receiver as it was when the call
  fails. In the failing scenario the call returns NULL after the first column has been
  replaced by its fusion with the source: the receiver's first column has two rows
  where it had one, while \<open>nrows\<close> is still 1.
\<close>

theorem rbind_failure_counterexample:
  "reports_failure
     (DataTable_rbind (Column_rbind str_fusable) index_extract heapCD 0 [1] colmap_id 2)
   \<and> map_option columns
        (table_after
           (DataTable_rbind (Column_rbind str_fusable) index_extract heapCD 0 [1] colmap_id 2) 0)
       = Some [Some \<lparr>stype = ST_INT32, rows = [Some 1, Some 3]\<rparr>,
               Some \<lparr>stype = ST_STRING, rows = [Some 2]\<rparr>, None]
   \<and> map_option columns (heapCD 0)
       = Some [Some \<lparr>stype = ST_INT32, rows = [Some 1]\<rparr>,
               Some \<lparr>stype = ST_STRING, rows = [Some 2]\<rparr>, None]
   \<and> map_option columns
        (table_after
           (DataTable_rbind (Column_rbind str_fusable) index_extract heapCD 0 [1] colmap_id 2) 0)
       \<noteq> map_option columns (heapCD 0)"
  unfolding scenario_failure table_after_def by (simp add: heapCD_def tabC_def)

text \<open>
  Claim C1, amended. Let the receiver be a table with \<open>0 \<le> ncols \<le> ncols_new\<close> and the
  row counts add up within 64 bits. The call returns NULL exactly when some column's
  step fails (a contribution is null, or \<open>Column::rbind\<close> fails) after the columns
  before it have been fused, and it returns at that column \<open>k\<close>, with the store the
  first \<open>k\<close> columns left. In that store the receiver has the \<open>ncols\<close> and \<open>nrows\<close> it
  had before the call, a null table-level row index (as \<open>reify\<close> left it) and a column
  array of \<open>ncols_new + 1\<close> slots; every column below \<open>k\<close> is the result of its fusion,
  every slot from \<open>k\<close> on is as \<open>reify\<close> and the growth of the array left it, and every
  other table is unchanged.
\<close>

theorem rbind_failure_state:
  assumes ht: "h self = Some t" and nc: "0 \<le> ncols t" "ncols t \<le> ncols_new"
    and sum: "sum_nrows (h(self \<mapsto> prepare_receiver extr t ncols_new)) (nrows t) dts = Some nr"
  shows "(DataTable_rbind crbind extr h self dts cols ncols_new = Returned_NULL h' \<longleftrightarrow>
           (\<exists>k. 0 \<le> k \<and> k < ncols_new
              \<and> rbind_loop crbind extr self dts cols k 0
                   (h(self \<mapsto> prepare_receiver extr t ncols_new)) = Returned_this h'
              \<and> step_fails crbind extr self dts cols k h'))
     \<and> (\<forall>k. 0 \<le> k \<and> k \<le> ncols_new
              \<and> rbind_loop crbind extr self dts cols k 0
                   (h(self \<mapsto> prepare_receiver extr t ncols_new)) = Returned_this h' \<longrightarrow>
           (\<exists>tk. h' self = Some tk \<and> ncols tk = ncols t \<and> nrows tk = nrows t
              \<and> rowindex tk = None \<and> length (columns tk) = nat (ncols_new + 1)
              \<and> (\<forall>p. p \<noteq> self \<longrightarrow> h' p = h p)
              \<and> (\<forall>j. k \<le> j \<longrightarrow> get_col tk j = get_col (prepare_receiver extr t ncols_new) j)
              \<and> (\<forall>j. 0 \<le> j \<and> j < k \<longrightarrow>
                   (\<exists>hj tj cs c0 ret.
                      (\<forall>p. p \<noteq> self \<longrightarrow> hj p = h p) \<and> hj self = Some tj
                      \<and> same_shape (prepare_receiver extr t ncols_new) tj
                      \<and> fill_cols0 extr hj (cols (nat j)) 0 dts = Built cs
                      \<and> (if j < ncols t then get_col (prepare_receiver extr t ncols_new) j
                          else Some (new_Column ST_VOID (size_t_of (nrows t)))) = Some c0
                      \<and> crbind c0 cs = Some ret \<and> get_col tk j = Some ret))))"
proof (intro conjI allI impI)
  let ?t2 = "prepare_receiver extr t ncols_new"
  let ?h2 = "h(self \<mapsto> ?t2)"
  have eq: "DataTable_rbind crbind extr h self dts cols ncols_new =
       (case rbind_loop crbind extr self dts cols ncols_new 0 ?h2 of
          Returned_this h3 \<Rightarrow>
            (case h3 self of
               None \<Rightarrow> Undefined_behaviour
             | Some t3 \<Rightarrow> Returned_this (h3(self \<mapsto> t3\<lparr>ncols := ncols_new, nrows := nr\<rparr>)))
        | Undefined_behaviour \<Rightarrow> Undefined_behaviour
        | Assert_abort \<Rightarrow> Assert_abort
        | Returned_NULL h3 \<Rightarrow> Returned_NULL h3)"
    using ht nc sum by (simp add: DataTable_rbind_def Let_def prepare_receiver_fields)
  have "DataTable_rbind crbind extr h self dts cols ncols_new = Returned_NULL h' \<longleftrightarrow>
          rbind_loop crbind extr self dts cols ncols_new 0 ?h2 = Returned_NULL h'"
    unfolding eq by (auto split: outcome.splits option.splits)
  then show "DataTable_rbind crbind extr h self dts cols ncols_new = Returned_NULL h' \<longleftrightarrow>
           (\<exists>k. 0 \<le> k \<and> k < ncols_new
              \<and> rbind_loop crbind extr self dts cols k 0 ?h2 = Returned_this h'
              \<and> step_fails crbind extr self dts cols k h')"
    by (simp only: rbind_loop_null_iff)
next
  let ?t2 = "prepare_receiver extr t ncols_new"
  let ?h2 = "h(self \<mapsto> ?t2)"
  fix k
  assume a: "0 \<le> k \<and> k \<le> ncols_new
       \<and> rbind_loop crbind extr self dts cols k 0 ?h2 = Returned_this h'"
  then have k: "0 \<le> k" "k \<le> ncols_new"
    and pre: "rbind_loop crbind extr self dts cols k 0 ?h2 = Returned_this h'" by simp_all
  have len2: "length (columns ?t2) = nat (ncols_new + 1)"
    by (simp add: prepare_receiver_def Let_def grow_columns_length)
  have fr: "(\<forall>p. p \<noteq> self \<longrightarrow> h' p = ?h2 p) \<and> rel_option same_shape (?h2 self) (h' self)"
    by (rule rbind_loop_frame [OF disjI2 [OF pre]])
  then obtain tk where tk: "h' self = Some tk" "same_shape ?t2 tk"
    by (cases "h' self") auto
  have fields: "ncols tk = ncols t" "nrows tk = nrows t" "rowindex tk = None"
    "length (columns tk) = nat (ncols_new + 1)"
    using tk(2) len2 by (simp_all add: same_shape_def prepare_receiver_fields)
  have others: "\<forall>p. p \<noteq> self \<longrightarrow> h' p = h p" using fr by simp
  have upper: "\<forall>j. k \<le> j \<longrightarrow> get_col tk j = get_col ?t2 j"
  proof (intro allI impI)
    fix j assume "k \<le> j"
    have "\<exists>t'. h' self = Some t' \<and> get_col t' j = get_col ?t2 j"
      by (rule rbind_loop_upper [OF pre _ _ \<open>k \<le> j\<close>]) simp_all
    with tk(1) show "get_col tk j = get_col ?t2 j" by simp
  qed
  have lower: "\<forall>j. 0 \<le> j \<and> j < k \<longrightarrow>
       (\<exists>hj tj cs c0 ret.
          (\<forall>p. p \<noteq> self \<longrightarrow> hj p = h p) \<and> hj self = Some tj \<and> same_shape ?t2 tj
          \<and> fill_cols0 extr hj (cols (nat j)) 0 dts = Built cs
          \<and> (if j < ncols t then get_col ?t2 j
              else Some (new_Column ST_VOID (size_t_of (nrows t)))) = Some c0
          \<and> crbind c0 cs = Some ret \<and> get_col tk j = Some ret)"
  proof (intro allI impI)
    fix j assume j: "0 \<le> j \<and> j < k"
    have l: "nat k \<le> length (columns ?t2)" using k len2 by simp
    have "\<exists>t' hk tk cs c0 ret. h' self = Some t'
       \<and> (\<forall>p. p \<noteq> self \<longrightarrow> hk p = ?h2 p) \<and> hk self = Some tk \<and> same_shape ?t2 tk
       \<and> fill_cols0 extr hk (cols (nat j)) 0 dts = Built cs
       \<and> (if j < ncols ?t2 then get_col ?t2 j
           else Some (new_Column ST_VOID (size_t_of (nrows ?t2)))) = Some c0
       \<and> crbind c0 cs = Some ret \<and> get_col t' j = Some ret"
      by (rule rbind_loop_column_any [OF pre _ _ _ _ l]) (use j in simp_all)
    then obtain hj tj cs c0 ret where b: "\<forall>p. p \<noteq> self \<longrightarrow> hj p = ?h2 p" "hj self = Some tj"
      "same_shape ?t2 tj" "fill_cols0 extr hj (cols (nat j)) 0 dts = Built cs"
      "(if j < ncols t then get_col ?t2 j
           else Some (new_Column ST_VOID (size_t_of (nrows t)))) = Some c0"
      "crbind c0 cs = Some ret" "get_col tk j = Some ret"
      using tk(1) by (auto simp: prepare_receiver_fields cong: if_cong)
    have "\<forall>p. p \<noteq> self \<longrightarrow> hj p = h p" using b(1) by simp
    with b show "\<exists>hj tj cs c0 ret.
          (\<forall>p. p \<noteq> self \<longrightarrow> hj p = h p) \<and> hj self = Some tj \<and> same_shape ?t2 tj
          \<and> fill_cols0 extr hj (cols (nat j)) 0 dts = Built cs
          \<and> (if j < ncols t then get_col ?t2 j
              else Some (new_Column ST_VOID (size_t_of (nrows t)))) = Some c0
          \<and> crbind c0 cs = Some ret \<and> get_col tk j = Some ret"
      by blast
  qed
  show "\<exists>tk. h' self = Some tk \<and> ncols tk = ncols t \<and> nrows tk = nrows t
              \<and> rowindex tk = None \<and> length (columns tk) = nat (ncols_new + 1)
              \<and> (\<forall>p. p \<noteq> self \<longrightarrow> h' p = h p)
              \<and> (\<forall>j. k \<le> j \<longrightarrow> get_col tk j = get_col ?t2 j)
              \<and> (\<forall>j. 0 \<le> j \<and> j < k \<longrightarrow>
                   (\<exists>hj tj cs c0 ret.
                      (\<forall>p. p \<noteq> self \<longrightarrow> hj p = h p) \<and> hj self = Some tj
                      \<and> same_shape ?t2 tj
                      \<and> fill_cols0 extr hj (cols (nat j)) 0 dts = Built cs
                      \<and> (if j < ncols t then get_col ?t2 j
                          else Some (new_Column ST_VOID (size_t_of (nrows t)))) = Some c0
                      \<and> crbind c0 cs = Some ret \<and> get_col tk j = Some ret))"
    using tk(1) fields others upper lower by blast
qed

lemma prefix_CD:
  "rbind_loop (Column_rbind str_fusable) index_extract 0 [1] colmap_id 1 0
     (heapCD(0 \<mapsto> prepare_receiver index_extract tabC 2)) = Returned_this heapCD_failed"
  by (simp add: rbind_eval heapCD_def heapCD_failed_def tabC_def tabD_def)

lemma fails_CD:
  "step_fails (Column_rbind str_fusable) index_extract 0 [1] colmap_id 1 heapCD_failed"
  by (simp add: step_fails_def rbind_eval heapCD_def heapCD_failed_def tabC_def tabD_def)

theorem rbind_failure_state_witness:
  "heapCD 0 = Some tabC \<and> 0 \<le> ncols tabC \<and> ncols tabC \<le> 2
   \<and> sum_nrows (heapCD(0 \<mapsto> prepare_receiver index_extract tabC 2)) (nrows tabC) [1] = Some 2
   \<and> (0::int) \<le> 1 \<and> (1::int) < 2
   \<and> rbind_loop (Column_rbind str_fusable) index_extract 0 [1] colmap_id 1 0
        (heapCD(0 \<mapsto> prepare_receiver index_extract tabC 2)) = Returned_this heapCD_failed
   \<and> step_fails (Column_rbind str_fusable) index_extract 0 [1] colmap_id 1 heapCD_failed
   \<and> DataTable_rbind (Column_rbind str_fusable) index_extract heapCD 0 [1] colmap_id 2
       = Returned_NULL heapCD_failed
   \<and> (\<exists>tk. heapCD_failed 0 = Some tk \<and> ncols tk = ncols tabC \<and> nrows tk = nrows tabC
         \<and> get_col tk 1 = get_col (prepare_receiver index_extract tabC 2) 1)
   \<and> heapCD_failed 1 = heapCD 1"
proof -
  have h: "heapCD 0 = Some tabC" "0 \<le> ncols tabC" "ncols tabC \<le> 2"
    "sum_nrows (heapCD(0 \<mapsto> prepare_receiver index_extract tabC 2)) (nrows tabC) [1] = Some 2"
    by (simp_all add: heapCD_def tabC_def tabD_def int64_ok_def)
  have k: "(0::int) \<le> 1" "(1::int) < 2" "(1::int) \<le> 2" by simp_all
  note th = rbind_failure_state [OF h, of "Column_rbind str_fusable" colmap_id heapCD_failed]
  from th have null: "DataTable_rbind (Column_rbind str_fusable) index_extract heapCD 0 [1]
      colmap_id 2 = Returned_NULL heapCD_failed"
    using k prefix_CD fails_CD by blast
  from th k prefix_CD have st: "\<exists>tk. heapCD_failed 0 = Some tk \<and> ncols tk = ncols tabC
     \<and> nrows tk = nrows tabC
     \<and> get_col tk 1 = get_col (prepare_receiver index_extract tabC 2) 1"
    by blast
  have "heapCD_failed 1 = heapCD 1" by (simp add: heapCD_failed_def)
  with h k prefix_CD fails_CD null st show ?thesis by blast
qed

subsection \<open>The row count\<close>

text \<open>
  Claim C2. After a call that succeeds, the receiver's \<open>nrows\<close> is its \<open>nrows\<close> before
  the call plus the sum of the \<open>nrows\<close> of the source tables; every source pointer is
  a table.
\<close>

theorem rbind_row_count:
  assumes "DataTable_rbind crbind extr h self dts cols ncols_new = Returned_this h'"
  shows "\<exists>t t'. h self = Some t \<and> h' self = Some t'
           \<and> nrows t' = nrows t + sum_list (map (nrows_at h) dts)
           \<and> (\<forall>p\<in>set dts. h p \<noteq> None)"
proof -
  from assms
  have "returned_store (DataTable_rbind crbind extr h self dts cols ncols_new) = Some h'"
    by simp
  then obtain t nr where ht: "h self = Some t"
    and nr: "sum_nrows (h(self \<mapsto> prepare_receiver extr t ncols_new)) (nrows t) dts = Some nr"
    and eq: "DataTable_rbind crbind extr h self dts cols ncols_new =
       (case rbind_loop crbind extr self dts cols ncols_new 0
               (h(self \<mapsto> prepare_receiver extr t ncols_new)) of
          Returned_this h3 \<Rightarrow>
            (case h3 self of
               None \<Rightarrow> Undefined_behaviour
             | Some t3 \<Rightarrow> Returned_this (h3(self \<mapsto> t3\<lparr>ncols := ncols_new, nrows := nr\<rparr>)))
        | Undefined_behaviour \<Rightarrow> Undefined_behaviour
        | Assert_abort \<Rightarrow> Assert_abort
        | Returned_NULL h3 \<Rightarrow> Returned_NULL h3)"
    by (rule DataTable_rbind_returns)
  let ?h2 = "h(self \<mapsto> prepare_receiver extr t ncols_new)"
  from assms eq obtain h3 t3 where
    h': "h' = h3(self \<mapsto> t3\<lparr>ncols := ncols_new, nrows := nr\<rparr>)"
    by (auto split: outcome.splits option.splits)
  have "nr = nrows t + sum_list (map (nrows_at ?h2) dts)" by (rule sum_nrows_eq [OF nr])
  moreover have "nrows_at ?h2 = nrows_at h"
    using ht by (intro ext nrows_at_upd) (simp_all add: prepare_receiver_fields)
  ultimately have "nr = nrows t + sum_list (map (nrows_at h) dts)" by simp
  moreover have "\<forall>p\<in>set dts. h p \<noteq> None"
  proof
    fix p assume "p \<in> set dts"
    then have "?h2 p \<noteq> None" by (rule sum_nrows_sources [OF nr])
    then show "h p \<noteq> None" using ht by (cases "p = self") simp_all
  qed
  ultimately show ?thesis using ht h' by simp
qed

theorem rbind_row_count_witness:
  "DataTable_rbind (Column_rbind str_fusable) index_extract heapAB 0 [1] colmap_id 1
     = Returned_this (heapAB(0 \<mapsto> \<lparr>nrows = 3, ncols = 1, rowindex = None,
         columns = [Some \<lparr>stype = ST_INT32, rows = [Some 10, Some 20, Some 30]\<rparr>, None]\<rparr>))
   \<and> (\<exists>t t'. heapAB 0 = Some t
         \<and> (heapAB(0 \<mapsto> \<lparr>nrows = 3, ncols = 1, rowindex = None,
               columns = [Some \<lparr>stype = ST_INT32, rows = [Some 10, Some 20, Some 30]\<rparr>,
                          None]\<rparr>)) 0 = Some t'
         \<and> nrows t' = nrows t + sum_list (map (nrows_at heapAB) [1]))
   \<and> nrows_at heapAB 0 = 2 \<and> nrows_at heapAB 1 = 1"
  using rbind_row_count [OF scenario_matched] scenario_matched
  by (auto simp: nrows_at_def heapAB_def tabA_def tabB_def)

subsection \<open>The frame\<close>

text \<open>
  Claim C9, as stated, covers every source table. The receiver can itself be passed as
  a source: binding A with itself succeeds and leaves the table with 4 rows, so that
  source is not what it was before the call.
\<close>

theorem rbind_source_counterexample:
  "(0::nat) \<in> set [0]
   \<and> map_option nrows
        (table_after
           (DataTable_rbind (Column_rbind str_fusable) index_extract heapAB 0 [0] colmap_id 1) 0)
       = Some 4
   \<and> map_option nrows (heapAB 0) = Some 2
   \<and> table_after
        (DataTable_rbind (Column_rbind str_fusable) index_extract heapAB 0 [0] colmap_id 1) 0
       \<noteq> heapAB 0"
  unfolding scenario_self table_after_def by (simp add: heapAB_def tabA_def)

text \<open>
  Claim C9, amended. Whether the call succeeds or reports failure, every table other
  than the receiver is the same after the call as before it; in particular every source
  table that is not the receiver keeps its columns, \<open>ncols\<close>, \<open>nrows\<close> and row index.
\<close>

theorem rbind_frame:
  assumes "returned_store (DataTable_rbind crbind extr h self dts cols ncols_new) = Some h'"
  shows "(\<forall>p. p \<noteq> self \<longrightarrow> h' p = h p)
         \<and> (\<forall>j<length dts. dts ! j \<noteq> self \<longrightarrow> h' (dts ! j) = h (dts ! j))"
proof -
  from assms obtain t nr where ht: "h self = Some t"
    and eq: "DataTable_rbind crbind extr h self dts cols ncols_new =
       (case rbind_loop crbind extr self dts cols ncols_new 0
               (h(self \<mapsto> prepare_receiver extr t ncols_new)) of
          Returned_this h3 \<Rightarrow>
            (case h3 self of
               None \<Rightarrow> Undefined_behaviour
             | Some t3 \<Rightarrow> Returned_this (h3(self \<mapsto> t3\<lparr>ncols := ncols_new, nrows := nr\<rparr>)))
        | Undefined_behaviour \<Rightarrow> Undefined_behaviour
        | Assert_abort \<Rightarrow> Assert_abort
        | Returned_NULL h3 \<Rightarrow> Returned_NULL h3)"
    by (rule DataTable_rbind_returns)
  let ?h2 = "h(self \<mapsto> prepare_receiver extr t ncols_new)"
  from assms eq obtain h3 where
    run: "rbind_loop crbind extr self dts cols ncols_new 0 ?h2 = Returned_NULL h3
         \<or> rbind_loop crbind extr self dts cols ncols_new 0 ?h2 = Returned_this h3"
    and h': "\<forall>p. p \<noteq> self \<longrightarrow> h' p = h3 p"
    by (auto split: outcome.splits option.splits)
  from rbind_loop_frame [OF run] h' show ?thesis by simp
qed

theorem rbind_frame_witness:
  "returned_store
     (DataTable_rbind (Column_rbind str_fusable) index_extract heapAB 0 [1] colmap_id 1)
     = Some (heapAB(0 \<mapsto> \<lparr>nrows = 3, ncols = 1, rowindex = None,
         columns = [Some \<lparr>stype = ST_INT32, rows = [Some 10, Some 20, Some 30]\<rparr>, None]\<rparr>))
   \<and> (0::nat) < length [1::nat] \<and> [1::nat] ! 0 \<noteq> 0
   \<and> (heapAB(0 \<mapsto> \<lparr>nrows = 3, ncols = 1, rowindex = None,
         columns = [Some \<lparr>stype = ST_INT32, rows = [Some 10, Some 20, Some 30]\<rparr>, None]\<rparr>)) 1
       = heapAB 1
   \<and> heapAB 1 = Some tabB"
proof -
  have st: "returned_store
     (DataTable_rbind (Column_rbind str_fusable) index_extract heapAB 0 [1] colmap_id 1)
     = Some (heapAB(0 \<mapsto> \<lparr>nrows = 3, ncols = 1, rowindex = None,
         columns = [Some \<lparr>stype = ST_INT32, rows = [Some 10, Some 20, Some 30]\<rparr>, None]\<rparr>))"
    unfolding scenario_matched by simp
  from rbind_frame [OF st] st show ?thesis by (simp add: heapAB_def)
qed

subsection \<open>NA fill\<close>

text \<open>
  Claim C3, with \<open>Column::rbind\<close> the fusion of the spec. After a call that succeeds,
  result column \<open>i\<close> is a base piece followed by one block per source table, in order.
  If \<open>i\<close> is at least the receiver's former \<open>ncols\<close>, the first \<open>nrows\<close> rows of the
  column (the receiver's former \<open>nrows\<close>) are all NA. For every source table \<open>j\<close> with
  \<open>cols[i][j] < 0\<close>, block \<open>j\<close> has that table's \<open>nrows\<close> rows and all of them are NA.
  Where the receiver is not one of its own sources and the tables satisfy the invariant
  of the data model, block \<open>j\<close> is the rows from offset \<open>nrows\<close> of the receiver plus the
  \<open>nrows\<close> of the sources before \<open>j\<close>, and the column has as many rows as the row-count
  law gives the table.
\<close>

theorem rbind_na_fill:
  fixes h :: "('v, 'r) heap"
  assumes ok: "DataTable_rbind (Column_rbind fusable) extr h self dts cols ncols_new
                 = Returned_this h'"
    and ht: "h self = Some t"
    and rng: "int64_ok (nrows t)"
    and i: "int i < ncols_new"
  shows "\<exists>t' c (c0 :: 'v column) (cs :: 'v column list).
       h' self = Some t' \<and> get_col t' (int i) = Some c
     \<and> rows c = rows c0 @ concat (map rows cs) \<and> length cs = length dts
     \<and> (ncols t \<le> int i \<longrightarrow> (\<forall>r<nat (nrows t). rows c ! r = None))
     \<and> (\<forall>j<length dts. cols i j < 0 \<longrightarrow>
          length (rows (cs ! j)) = size_t_of (nrows_at h (dts ! j))
          \<and> (\<forall>v\<in>set (rows (cs ! j)). v = None))
     \<and> (self \<notin> set dts \<and> wf_table extr t
          \<and> (\<forall>p\<in>set dts. case h p of None \<Rightarrow> True | Some d \<Rightarrow> wf_table extr d) \<longrightarrow>
          length (rows c) = nat (nrows t) + (\<Sum>m<length dts. nat (nrows_at h (dts ! m)))
          \<and> (\<forall>j<length dts. cols i j < 0 \<longrightarrow>
               (\<forall>r<nat (nrows_at h (dts ! j)).
                  rows c ! (nat (nrows t) + (\<Sum>m<j. nat (nrows_at h (dts ! m))) + r) = None)))"
proof -
  let ?t2 = "prepare_receiver extr t ncols_new"
  let ?h2 = "h(self \<mapsto> ?t2)"
  from ok have "returned_store (DataTable_rbind (Column_rbind fusable) extr h self dts cols ncols_new)
                  = Some h'" by simp
  then obtain t0 nr where t0: "h self = Some t0"
    and eq: "DataTable_rbind (Column_rbind fusable) extr h self dts cols ncols_new =
       (case rbind_loop (Column_rbind fusable) extr self dts cols ncols_new 0
               (h(self \<mapsto> prepare_receiver extr t0 ncols_new)) of
          Returned_this h3 \<Rightarrow>
            (case h3 self of
               None \<Rightarrow> Undefined_behaviour
             | Some t3 \<Rightarrow> Returned_this (h3(self \<mapsto> t3\<lparr>ncols := ncols_new, nrows := nr\<rparr>)))
        | Undefined_behaviour \<Rightarrow> Undefined_behaviour
        | Assert_abort \<Rightarrow> Assert_abort
        | Returned_NULL h3 \<Rightarrow> Returned_NULL h3)"
    by (rule DataTable_rbind_returns)
  from t0 ht have [simp]: "t0 = t" by simp
  from ok eq obtain h3 t3 where
    run: "rbind_loop (Column_rbind fusable) extr self dts cols ncols_new 0 ?h2 = Returned_this h3"
    and t3: "h3 self = Some t3" and h': "h' = h3(self \<mapsto> t3\<lparr>ncols := ncols_new, nrows := nr\<rparr>)"
    by (auto split: outcome.splits option.splits)
  have len2: "nat ncols_new \<le> length (columns ?t2)"
    by (simp add: prepare_receiver_def Let_def grow_columns_length)
  have "\<exists>t' hk tk cs c0 ret. h3 self = Some t'
     \<and> (\<forall>p. p \<noteq> self \<longrightarrow> hk p = ?h2 p) \<and> hk self = Some tk \<and> same_shape ?t2 tk
     \<and> fill_cols0 extr hk (cols (nat (int i))) 0 dts = Built cs
     \<and> (if int i < ncols ?t2 then get_col ?t2 (int i)
         else Some (new_Column ST_VOID (size_t_of (nrows ?t2)))) = Some c0
     \<and> Column_rbind fusable c0 cs = Some ret \<and> get_col t' (int i) = Some ret"
    by (rule rbind_loop_column_any [OF run _ _ _ i len2]) simp_all
  then obtain hk tk cs c0 ret where
    hk: "\<forall>p. p \<noteq> self \<longrightarrow> hk p = h p" "hk self = Some tk" "same_shape ?t2 tk"
    and cs: "fill_cols0 extr hk (cols i) 0 dts = Built cs"
    and c0: "(if int i < ncols t then get_col ?t2 (int i)
              else Some (new_Column ST_VOID (size_t_of (nrows t)))) = Some c0"
    and ret: "Column_rbind fusable c0 cs = Some ret" and got: "get_col t3 (int i) = Some ret"
    using t3 by (auto simp: prepare_receiver_fields cong: if_cong)
  have nk: "nrows_at hk = nrows_at h"
  proof
    fix p show "nrows_at hk p = nrows_at h p"
      using hk ht by (cases "p = self") (simp_all add: nrows_at_def same_shape_def prepare_receiver_fields)
  qed
  from fill_cols0_nth [OF cs] have lcs: "length cs = length dts"
    and mk: "\<And>m. m < length dts \<Longrightarrow> make_contrib extr hk (dts ! m) (cols i m) = Built (cs ! m)"
    by simp_all
  have rows_ret: "rows ret = rows c0 @ concat (map rows cs)"
    using ret by (auto simp: Column_rbind_def split: if_splits)
  have t': "h' self = Some (t3\<lparr>ncols := ncols_new, nrows := nr\<rparr>)" by (simp add: h')
  have "get_col (t3\<lparr>ncols := ncols_new, nrows := nr\<rparr>) (int i) = get_col t3 (int i)"
    by (simp add: get_col_def)
  with got have g': "get_col (t3\<lparr>ncols := ncols_new, nrows := nr\<rparr>) (int i) = Some ret"
    by simp
  have part1: "ncols t \<le> int i \<longrightarrow> (\<forall>r<nat (nrows t). rows ret ! r = None)"
  proof (intro impI allI)
    fix r assume a: "ncols t \<le> int i" "r < nat (nrows t)"
    then have "0 \<le> nrows t" by simp
    then have "size_t_of (nrows t) = nat (nrows t)" by (rule size_t_of_int64 [OF rng])
    with a c0 have "rows c0 = replicate (nat (nrows t)) None" by (auto simp: new_Column_def)
    with a(2) show "rows ret ! r = None" by (simp add: rows_ret nth_append)
  qed
  have part2: "\<forall>j<length dts. cols i j < 0 \<longrightarrow>
          length (rows (cs ! j)) = size_t_of (nrows_at h (dts ! j))
          \<and> (\<forall>v\<in>set (rows (cs ! j)). v = None)"
  proof (intro allI impI)
    fix j assume "j < length dts" "cols i j < 0"
    from void_contrib [OF mk [OF this(1)] this(2)]
    show "length (rows (cs ! j)) = size_t_of (nrows_at h (dts ! j))
          \<and> (\<forall>v\<in>set (rows (cs ! j)). v = None)"
      by (simp add: nk)
  qed
  have part3: "self \<notin> set dts \<and> wf_table extr t
          \<and> (\<forall>p\<in>set dts. case h p of None \<Rightarrow> True | Some d \<Rightarrow> wf_table extr d) \<longrightarrow>
          length (rows ret) = nat (nrows t) + (\<Sum>m<length dts. nat (nrows_at h (dts ! m)))
          \<and> (\<forall>j<length dts. cols i j < 0 \<longrightarrow>
               (\<forall>r<nat (nrows_at h (dts ! j)).
                  rows ret ! (nat (nrows t) + (\<Sum>m<j. nat (nrows_at h (dts ! m))) + r) = None))"
  proof
    assume a: "self \<notin> set dts \<and> wf_table extr t
          \<and> (\<forall>p\<in>set dts. case h p of None \<Rightarrow> True | Some d \<Rightarrow> wf_table extr d)"
    then have a1: "self \<notin> set dts" and a2: "wf_table extr t"
      and a3: "\<forall>p\<in>set dts. case h p of None \<Rightarrow> True | Some d \<Rightarrow> wf_table extr d"
      by simp_all
    from rbind_block_offsets [OF ok ht a1 a2 a3 i] t' g'
    show "length (rows ret) = nat (nrows t) + (\<Sum>m<length dts. nat (nrows_at h (dts ! m)))
          \<and> (\<forall>j<length dts. cols i j < 0 \<longrightarrow>
               (\<forall>r<nat (nrows_at h (dts ! j)).
                  rows ret ! (nat (nrows t) + (\<Sum>m<j. nat (nrows_at h (dts ! m))) + r) = None))"
      by auto
  qed
  show ?thesis
    apply (rule exI [of _ "t3\<lparr>ncols := ncols_new, nrows := nr\<rparr>"])
    apply (rule exI [of _ ret])
    apply (rule exI [of _ c0])
    apply (rule exI [of _ cs])
    apply (intro conjI)
          apply (rule t' g' rows_ret lcs part1 part2 part3)+
    done
qed

theorem rbind_na_fill_witness:
  "DataTable_rbind (Column_rbind str_fusable) index_extract heapAB 0 [1] colmap_na 2
     = Returned_this (heapAB(0 \<mapsto> \<lparr>nrows = 3, ncols = 2, rowindex = None,
         columns = [Some \<lparr>stype = ST_INT32, rows = [Some 10, Some 20, None]\<rparr>,
                    Some \<lparr>stype = ST_VOID, rows = [None, None, None]\<rparr>, None]\<rparr>))
   \<and> heapAB 0 = Some tabA \<and> int64_ok (nrows tabA) \<and> int 1 < 2
   \<and> ncols tabA \<le> int 1 \<and> (0::nat) < length [1::nat] \<and> colmap_na 1 0 < 0
   \<and> 0 \<notin> set [1::nat] \<and> wf_table index_extract tabA
   \<and> heapAB 1 = Some tabB \<and> wf_table index_extract tabB
   \<and> (\<exists>t' c. (heapAB(0 \<mapsto> \<lparr>nrows = 3, ncols = 2, rowindex = None,
         columns = [Some \<lparr>stype = ST_INT32, rows = [Some 10, Some 20, None]\<rparr>,
                    Some \<lparr>stype = ST_VOID, rows = [None, None, None]\<rparr>, None]\<rparr>)) 0 = Some t'
        \<and> get_col t' (int 1) = Some c \<and> length (rows c) = 3
        \<and> rows c ! 0 = None \<and> rows c ! 1 = None \<and> rows c ! 2 = None)"
proof -
  have h: "heapAB 0 = Some tabA" "int64_ok (nrows tabA)" "int 1 < 2"
    by (simp_all add: heapAB_def tabA_def int64_ok_def)
  have more: "ncols tabA \<le> int 1" "(0::nat) < length [1::nat]" "colmap_na 1 0 < 0"
    "0 \<notin> set [1::nat]" "wf_table index_extract tabA"
    "\<forall>p\<in>set [1]. case heapAB p of None \<Rightarrow> True | Some d \<Rightarrow> wf_table index_extract d"
    by (simp_all add: heapAB_def tabA_def tabB_def colmap_na_def wf_table_def int64_ok_def)
  have src: "heapAB 1 = Some tabB" "wf_table index_extract tabB"
    by (simp_all add: heapAB_def tabB_def wf_table_def int64_ok_def)
  from rbind_na_fill [OF scenario_unmatched h] h more src scenario_unmatched
  show ?thesis by (simp add: get_col_def)
qed

end
